theory Spec2Isabelle
  imports Complex_Main
begin

section \<open>Floating-point values\<close>

text \<open>
  The arrays of \<^verbatim>\<open>utils.py\<close> hold IEEE doubles. A double is modelled as an exact real
  number or one of the three special values; rounding, overflow of finite results and
  the sign of zero are not modelled. The operations follow numpy on the special values:
  a division by zero gives an infinity (or NaN for 0/0) instead of raising, every
  comparison with NaN is false except \<^verbatim>\<open>!=\<close>.
\<close>

datatype fl = Fin real | PInf | NInf | NaN

fun is_finite :: "fl \<Rightarrow> bool" where
  "is_finite (Fin _) = True"
| "is_finite _ = False"



text \<open>\<^verbatim>\<open>a > b\<close>\<close>

fun fl_gt :: "fl \<Rightarrow> fl \<Rightarrow> bool" where
  "fl_gt (Fin a) (Fin b) = (b < a)"
| "fl_gt (Fin a) NInf = True"
| "fl_gt PInf (Fin b) = True"
| "fl_gt PInf NInf = True"
| "fl_gt _ _ = False"

text \<open>\<^verbatim>\<open>a != b\<close>\<close>

fun fl_ne :: "fl \<Rightarrow> fl \<Rightarrow> bool" where
  "fl_ne NaN _ = True"
| "fl_ne _ NaN = True"
| "fl_ne a b = (a \<noteq> b)"

fun fl_neg :: "fl \<Rightarrow> fl" where
  "fl_neg (Fin a) = Fin (- a)"
| "fl_neg PInf = NInf"
| "fl_neg NInf = PInf"
| "fl_neg NaN = NaN"

fun fl_add :: "fl \<Rightarrow> fl \<Rightarrow> fl" where
  "fl_add (Fin a) (Fin b) = Fin (a + b)"
| "fl_add NaN _ = NaN"
| "fl_add _ NaN = NaN"
| "fl_add PInf NInf = NaN"
| "fl_add NInf PInf = NaN"
| "fl_add PInf _ = PInf"
| "fl_add _ PInf = PInf"
| "fl_add NInf _ = NInf"
| "fl_add _ NInf = NInf"

definition fl_sub :: "fl \<Rightarrow> fl \<Rightarrow> fl" where
  "fl_sub a b = fl_add a (fl_neg b)"

text \<open>The sign of a value that is not NaN, as an infinity of that sign (0 for zero).\<close>

fun fl_sign :: "fl \<Rightarrow> int" where
  "fl_sign (Fin a) = (if a < 0 then - 1 else if a = 0 then 0 else 1)"
| "fl_sign PInf = 1"
| "fl_sign NInf = - 1"
| "fl_sign NaN = 0"

definition inf_of_sign :: "int \<Rightarrow> fl" where
  "inf_of_sign s = (if s = 0 then NaN else if 0 < s then PInf else NInf)"

fun fl_mul :: "fl \<Rightarrow> fl \<Rightarrow> fl" where
  "fl_mul (Fin a) (Fin b) = Fin (a * b)"
| "fl_mul NaN _ = NaN"
| "fl_mul _ NaN = NaN"
| "fl_mul a b = inf_of_sign (fl_sign a * fl_sign b)"

fun fl_div :: "fl \<Rightarrow> fl \<Rightarrow> fl" where
  "fl_div (Fin a) (Fin b) = (if b = 0 then inf_of_sign (fl_sign (Fin a)) else Fin (a / b))"
| "fl_div NaN _ = NaN"
| "fl_div _ NaN = NaN"
| "fl_div (Fin a) _ = Fin 0"
| "fl_div a (Fin b) = inf_of_sign (fl_sign a * (if b < 0 then - 1 else 1))"
| "fl_div _ _ = NaN"

fun fl_sqrt :: "fl \<Rightarrow> fl" where
  "fl_sqrt (Fin a) = (if a < 0 then NaN else Fin (sqrt a))"
| "fl_sqrt PInf = PInf"
| "fl_sqrt _ = NaN"

text \<open>\<^verbatim>\<open>arr.sum()\<close> of a one-dimensional array; the sum of no element is 0.\<close>

definition np_sum :: "fl list \<Rightarrow> fl" where
  "np_sum xs = foldr fl_add xs (Fin 0)"


section \<open>Python slices and numpy array helpers\<close>

datatype error =
  AssertionError | IndexError | ValueError | ZeroDivisionError | AxisError | TypeError

text \<open>A slice bound of \<^verbatim>\<open>xs[s:e]\<close> on a sequence of length \<open>n\<close>: a negative bound
  counts from the end, and every bound is clipped to the sequence.\<close>

definition slice_bound :: "nat \<Rightarrow> int \<Rightarrow> nat" where
  "slice_bound n i = (if i < 0 then nat (max 0 (int n + i)) else min n (nat i))"

definition py_slice :: "'a list \<Rightarrow> int \<Rightarrow> int \<Rightarrow> 'a list" where
  "py_slice xs s e =
     (let a = slice_bound (length xs) s; b = slice_bound (length xs) e
      in take (b - a) (drop a xs))"

text \<open>\<^verbatim>\<open>xs[s:e] = ys\<close> for an in-place operation on the slice: \<open>ys\<close> has the length of
  the slice and replaces it.\<close>

definition py_slice_update :: "'a list \<Rightarrow> int \<Rightarrow> int \<Rightarrow> 'a list \<Rightarrow> 'a list" where
  "py_slice_update xs s e ys =
     (let a = slice_bound (length xs) s; b = slice_bound (length xs) e
      in if a < b then take a xs @ ys @ drop b xs else xs)"

text \<open>\<^verbatim>\<open>np.where(data > threshold)[0]\<close>: the positions, in increasing order.\<close>

definition where_gt :: "fl list \<Rightarrow> fl \<Rightarrow> nat list" where
  "where_gt d t = filter (\<lambda>i. fl_gt (d ! i) t) [0..<length d]"

text \<open>\<^verbatim>\<open>np.delete(arr, idx)\<close> for an array of non-negative positions: a position outside the
  array raises IndexError.\<close>

definition np_delete :: "'a list \<Rightarrow> nat list \<Rightarrow> error + 'a list" where
  "np_delete xs idx =
     (if \<exists>i \<in> set idx. length xs \<le> i then Inl IndexError
      else Inr (map (\<lambda>i. xs ! i) (filter (\<lambda>i. i \<notin> set idx) [0..<length xs])))"

text \<open>\<^verbatim>\<open>sa.searchsorted(v, 'left')\<close> and \<^verbatim>\<open>sa.searchsorted(v, 'right')\<close> on a sorted
  array: the insertion position before, or after, the entries equal to \<open>v\<close>.\<close>

definition searchsorted_left :: "int list \<Rightarrow> int \<Rightarrow> nat" where
  "searchsorted_left sa v = length (takeWhile (\<lambda>x. x < v) sa)"

definition searchsorted_right :: "int list \<Rightarrow> int \<Rightarrow> nat" where
  "searchsorted_right sa v = length (takeWhile (\<lambda>x. x \<le> v) sa)"

text \<open>numpy's \<^verbatim>\<open>_search_sorted_inclusive\<close>: all edges but the last are searched from the
  left, the last one from the right, so that the last bin is closed.\<close>

definition search_sorted_inclusive :: "int list \<Rightarrow> int list \<Rightarrow> nat list" where
  "search_sorted_inclusive sa v =
     map (searchsorted_left sa) (butlast v) @
     (if v = [] then [] else [searchsorted_right sa (last v)])"

text \<open>\<^verbatim>\<open>np.diff\<close> and \<^verbatim>\<open>np.cumsum\<close> on a one-dimensional integer array.\<close>

fun np_diff :: "int list \<Rightarrow> int list" where
  "np_diff (x # y # ys) = (y - x) # np_diff (y # ys)"
| "np_diff _ = []"

fun cumsum_from :: "int \<Rightarrow> int list \<Rightarrow> int list" where
  "cumsum_from acc [] = []"
| "cumsum_from acc (x # xs) = (acc + x) # cumsum_from (acc + x) xs"

definition np_cumsum :: "int list \<Rightarrow> int list" where
  "np_cumsum xs = cumsum_from 0 xs"

fun nondecreasing :: "int list \<Rightarrow> bool" where
  "nondecreasing (x # y # ys) = (x \<le> y \<and> nondecreasing (y # ys))"
| "nondecreasing _ = True"

text \<open>\<^verbatim>\<open>np.histogram(a, bins=edges)[0]\<close> with an array of bin edges: decreasing edges
  raise ValueError; the counts are the differences of the cumulative counts at the
  edges.\<close>

definition np_histogram :: "int list \<Rightarrow> int list \<Rightarrow> error + int list" where
  "np_histogram a edges =
     (if \<not> nondecreasing edges then Inl ValueError
      else Inr (np_diff (map int (search_sorted_inclusive (sort a) edges))))"

text \<open>\<^verbatim>\<open>arr[1:] -= c\<close>, where \<open>c\<close> has the length of \<^verbatim>\<open>arr[1:]\<close>.\<close>

definition sub_tail :: "int list \<Rightarrow> int list \<Rightarrow> int list" where
  "sub_tail arr c = (case arr of [] \<Rightarrow> [] | x # xs \<Rightarrow> x # map2 (-) xs c)"

section \<open>Compressed sparse row matrices and the object store\<close>

text \<open>A \<^verbatim>\<open>csr_matrix\<close>: its three arrays and the number of columns of its shape (the
  number of rows is one less than the length of \<open>indptr\<close>).\<close>

record csr =
  data :: "fl list"
  indices :: "int list"
  indptr :: "int list"
  ncols :: nat

text \<open>The invariant of a CSR graph.\<close>

definition csr_inv :: "csr \<Rightarrow> bool" where
  "csr_inv g \<longleftrightarrow>
     indptr g \<noteq> [] \<and> hd (indptr g) = 0 \<and> nondecreasing (indptr g) \<and>
     last (indptr g) = int (length (data g)) \<and> length (indices g) = length (data g)"

text \<open>Row \<open>i\<close> of a graph: \<^verbatim>\<open>data[indptr[i]:indptr[i+1]]\<close> and the matching slice of
  \<open>indices\<close>.\<close>

definition row_data :: "csr \<Rightarrow> nat \<Rightarrow> fl list" where
  "row_data g i = py_slice (data g) (indptr g ! i) (indptr g ! Suc i)"

definition row_indices :: "csr \<Rightarrow> nat \<Rightarrow> int list" where
  "row_indices g i = py_slice (indices g) (indptr g ! i) (indptr g ! Suc i)"

definition nrows :: "csr \<Rightarrow> nat" where
  "nrows g = length (indptr g) - 1"

text \<open>
  The functions of \<^verbatim>\<open>utils.py\<close> mutate the matrices they are given unless asked to copy.
  The store holds the matrix objects; a reference is a position in the store, a new
  object is appended, \<^verbatim>\<open>graph.copy()\<close> appends a copy (with arrays of its own). A
  reference held by a Python caller is always a position of the store.
\<close>

type_synonym addr = nat
type_synonym store = "csr list"

definition alloc :: "'a list \<Rightarrow> 'a \<Rightarrow> 'a list \<times> addr" where
  "alloc h v = (h @ [v], length h)"

section \<open>CSR Filter\<close>

text \<open>
  \<^verbatim>\<open>remove_greater_than(graph, threshold, copy, verbose)\<close>. The result is the error
  raised or the reference returned, with the store as the call leaves it. The
  \<open>verbose\<close> flag only prints and is left out.
\<close>

definition set_data :: "store \<Rightarrow> addr \<Rightarrow> fl list \<Rightarrow> store" where
  "set_data h g d = h[g := (h ! g)\<lparr>data := d\<rparr>]"

definition set_indices :: "store \<Rightarrow> addr \<Rightarrow> int list \<Rightarrow> store" where
  "set_indices h g ix = h[g := (h ! g)\<lparr>indices := ix\<rparr>]"

definition set_indptr :: "store \<Rightarrow> addr \<Rightarrow> int list \<Rightarrow> store" where
  "set_indptr h g p = h[g := (h ! g)\<lparr>indptr := p\<rparr>]"

definition remove_greater_than ::
  "store \<Rightarrow> addr \<Rightarrow> fl \<Rightarrow> bool \<Rightarrow> (error + addr) \<times> store" where
  "remove_greater_than h0 g0 threshold copy =
     (let (h, g) = (if copy then alloc h0 (h0 ! g0) else (h0, g0));
          greater_indices = where_gt (data (h ! g)) threshold
      in case np_delete (data (h ! g)) greater_indices of
           Inl e \<Rightarrow> (Inl e, h)
         | Inr d \<Rightarrow>
            (let h = set_data h g d
             in case np_delete (indices (h ! g)) greater_indices of
                  Inl e \<Rightarrow> (Inl e, h)
                | Inr ix \<Rightarrow>
                   (let h = set_indices h g ix
                    in case np_histogram (map int greater_indices) (indptr (h ! g)) of
                         Inl e \<Rightarrow> (Inl e, h)
                       | Inr hist \<Rightarrow>
                          (let cum_hist = np_cumsum hist
                           in (Inr g, set_indptr h g (sub_tail (indptr (h ! g)) cum_hist))))))"

text \<open>What the filter is meant to leave of a graph: the entries not above the threshold,
  with their column indices, and each row boundary moved down by the number of entries
  removed before it.\<close>

definition filtered :: "csr \<Rightarrow> fl \<Rightarrow> csr" where
  "filtered g t =
     g\<lparr>data := filter (\<lambda>x. \<not> fl_gt x t) (data g),
       indices := map snd (filter (\<lambda>p. \<not> fl_gt (fst p) t) (zip (data g) (indices g))),
       indptr := map (\<lambda>v. int (length (filter (\<lambda>x. \<not> fl_gt x t) (take (nat v) (data g)))))
                   (indptr g)\<rparr>"

section \<open>Row Normalizer\<close>

text \<open>\<^verbatim>\<open>zip(graph.indptr[:-1], graph.indptr[1:])\<close>\<close>

definition row_pairs :: "int list \<Rightarrow> (int \<times> int) list" where
  "row_pairs p = zip (butlast p) (tl p)"

text \<open>The loop of \<^verbatim>\<open>row_normalize\<close> over the pairs of row boundaries, on the \<open>data\<close>
  array it updates in place.\<close>

fun row_normalize_loop :: "(int \<times> int) list \<Rightarrow> fl list \<Rightarrow> fl list" where
  "row_normalize_loop [] d = d"
| "row_normalize_loop ((start_ptr, end_ptr) # ps) d =
     (let row_sum = np_sum (py_slice d start_ptr end_ptr)
      in row_normalize_loop ps
           (if fl_ne row_sum (Fin 0)
            then py_slice_update d start_ptr end_ptr
                   (map (\<lambda>x. fl_div x row_sum) (py_slice d start_ptr end_ptr))
            else d))"

text \<open>\<^verbatim>\<open>row_normalize(graph, copy, verbose)\<close>; it raises nothing.\<close>

definition row_normalize :: "store \<Rightarrow> addr \<Rightarrow> bool \<Rightarrow> addr \<times> store" where
  "row_normalize h0 g0 copy =
     (let (h, g) = (if copy then alloc h0 (h0 ! g0) else (h0, g0))
      in (g, set_data h g (row_normalize_loop (row_pairs (indptr (h ! g))) (data (h ! g)))))"

text \<open>What one step of the loop does to the row it is given.\<close>

definition normalize_row :: "fl list \<Rightarrow> fl list" where
  "normalize_row r = (if fl_ne (np_sum r) (Fin 0) then map (\<lambda>x. fl_div x (np_sum r)) r else r)"

subsection \<open>The Row Normalizer over the arithmetic of the platform\<close>

text \<open>
  The sums and the quotients that numpy computes are rounded and can overflow, and the
  result depends on the dtype of the array and on the order in which numpy adds. The
  definitions above take them exact. Where a property depends on what they round to, the
  two operations that \<^verbatim>\<open>row_normalize\<close> and the weight transform use are parameters of
  the model instead: \<^verbatim>\<open>arr.sum()\<close> of a one-dimensional array, and the quotient of two
  array elements. Every double is a value of \<open>fl\<close>, so the arithmetic of numpy is one
  such pair of functions, and what holds for every pair holds for it.
\<close>

record arith =
  a_sum :: "fl list \<Rightarrow> fl"
  a_div :: "fl \<Rightarrow> fl \<Rightarrow> fl"

text \<open>The arithmetic without rounding, which is the one of the definitions above.\<close>

definition exact_arith :: arith where
  "exact_arith = \<lparr>a_sum = np_sum, a_div = fl_div\<rparr>"

text \<open>
  The loop of \<^verbatim>\<open>row_normalize\<close> again, with the arithmetic and the kind of dtype of
  \<^verbatim>\<open>graph.data\<close> as parameters. \<^verbatim>\<open>data[start_ptr:end_ptr] /= row_sum\<close> divides in
  place when the array holds floats; on an array of an integer dtype numpy refuses to
  cast the quotients back and raises (a \<^verbatim>\<open>TypeError\<close>) before it changes anything. The
  comparison \<^verbatim>\<open>row_sum != 0\<close> is exact on every platform.
\<close>

fun row_normalize_loop_with ::
  "arith \<Rightarrow> bool \<Rightarrow> (int \<times> int) list \<Rightarrow> fl list \<Rightarrow> error + fl list" where
  "row_normalize_loop_with ar floating [] d = Inr d"
| "row_normalize_loop_with ar floating ((start_ptr, end_ptr) # ps) d =
     (let row_sum = a_sum ar (py_slice d start_ptr end_ptr)
      in if fl_ne row_sum (Fin 0)
         then (if floating
               then row_normalize_loop_with ar floating ps
                      (py_slice_update d start_ptr end_ptr
                         (map (\<lambda>x. a_div ar x row_sum) (py_slice d start_ptr end_ptr)))
               else Inl TypeError)
         else row_normalize_loop_with ar floating ps d)"

text \<open>\<^verbatim>\<open>row_normalize(graph, copy, verbose)\<close> over an arithmetic: the error raised or the
  reference returned, with the store as the call leaves it.\<close>

definition row_normalize_with ::
  "arith \<Rightarrow> bool \<Rightarrow> store \<Rightarrow> addr \<Rightarrow> bool \<Rightarrow> (error + addr) \<times> store" where
  "row_normalize_with ar floating h0 g0 copy =
     (let (h, g) = (if copy then alloc h0 (h0 ! g0) else (h0, g0))
      in case row_normalize_loop_with ar floating (row_pairs (indptr (h ! g))) (data (h ! g)) of
           Inl e \<Rightarrow> (Inl e, h)
         | Inr d \<Rightarrow> (Inr g, set_data h g d))"

text \<open>What one step of that loop does to the row of floats it is given.\<close>

definition normalize_row_with :: "arith \<Rightarrow> fl list \<Rightarrow> fl list" where
  "normalize_row_with ar r =
     (if fl_ne (a_sum ar r) (Fin 0) then map (\<lambda>x. a_div ar x (a_sum ar r)) r else r)"

text \<open>A computed value is finite and lies within the relative error \<open>e\<close> of the real
  number \<open>v\<close>.\<close>

fun within_rel :: "fl \<Rightarrow> real \<Rightarrow> real \<Rightarrow> bool" where
  "within_rel (Fin q) v e = (\<bar>q - v\<bar> \<le> e * \<bar>v\<bar>)"
| "within_rel _ v e = False"

text \<open>The real number that a finite value holds.\<close>

fun fl_val :: "fl \<Rightarrow> real" where
  "fl_val (Fin x) = x"
| "fl_val _ = 0"

section \<open>Neighbor Graph Builder\<close>

text \<open>The Python values an argument of the builder can be.\<close>

datatype pyval = PNone | PBool bool | PInt int | PFloat fl | PStr string

text \<open>\<^verbatim>\<open>isinstance(v, int)\<close>; a Python \<open>bool\<close> is an \<open>int\<close>.\<close>

fun isinstance_int :: "pyval \<Rightarrow> bool" where
  "isinstance_int (PInt _) = True"
| "isinstance_int (PBool _) = True"
| "isinstance_int _ = False"

text \<open>The number a value is when \<^verbatim>\<open>isinstance(v, (float, int))\<close> holds.\<close>

fun numeric_value :: "pyval \<Rightarrow> fl option" where
  "numeric_value (PFloat x) = Some x"
| "numeric_value (PInt i) = Some (Fin (of_int i))"
| "numeric_value (PBool b) = Some (Fin (if b then 1 else 0))"
| "numeric_value _ = None"

text \<open>
  The neighbour search is scikit-learn's. It is a parameter of the model: building the
  index from the locations (\<^verbatim>\<open>NearestNeighbors(algorithm='ball_tree').fit\<close>) and the two
  graph queries, each of which returns a new distance graph or raises.
\<close>

record ('l, 'n) neighbors_lib =
  fit :: "'l \<Rightarrow> error + 'n"
  kneighbors_graph :: "'n \<Rightarrow> pyval \<Rightarrow> error + csr"
  radius_neighbors_graph :: "'n \<Rightarrow> pyval \<Rightarrow> error + csr"

text \<open>A library whose index needs no data and whose graph queries all return one given
  graph: the neighbour search as it answers on one fixed set of locations.\<close>

definition const_lib :: "csr \<Rightarrow> (unit, unit) neighbors_lib" where
  "const_lib g =
     \<lparr>fit = (\<lambda>_. Inr ()), kneighbors_graph = (\<lambda>_ _. Inr g),
      radius_neighbors_graph = (\<lambda>_ _. Inr g)\<rparr>"

text \<open>The calls made to the library are recorded, in order, beside the store.\<close>

datatype event = Fit | KNeighborsGraph | RadiusNeighborsGraph

record world =
  objs :: store
  calls :: "event list"

definition log_call :: "world \<Rightarrow> event \<Rightarrow> world" where
  "log_call w ev = w\<lparr>calls := calls w @ [ev]\<rparr>"

definition get_nbrs ::
  "('l, 'n) neighbors_lib \<Rightarrow> world \<Rightarrow> 'l \<Rightarrow> 'n option \<Rightarrow> (error + 'n) \<times> world" where
  "get_nbrs lib w locations nbr_object =
     (case nbr_object of
        None \<Rightarrow> (fit lib locations, log_call w Fit)
      | Some n \<Rightarrow> (Inr n, w))"

definition new_graph :: "world \<Rightarrow> error + csr \<Rightarrow> (error + addr) \<times> world" where
  "new_graph w r =
     (case r of
        Inl e \<Rightarrow> (Inl e, w)
      | Inr g \<Rightarrow> (Inr (length (objs w)), w\<lparr>objs := fst (alloc (objs w) g)\<rparr>))"

definition filter_by_radius :: "world \<Rightarrow> addr \<Rightarrow> pyval \<Rightarrow> (error + addr) \<times> world" where
  "filter_by_radius w graph_out radius =
     (if radius = PNone then (Inr graph_out, w)
      else case numeric_value radius of
             None \<Rightarrow> (Inl AssertionError, w)
           | Some t \<Rightarrow>
              (let (r, h) = remove_greater_than (objs w) graph_out t False
               in (r, w\<lparr>objs := h\<rparr>)))"

text \<open>\<^verbatim>\<open>generate_spatial_distance_graph(locations, nbr_object, num_neighbours, radius)\<close>\<close>

definition generate_spatial_distance_graph ::
  "('l, 'n) neighbors_lib \<Rightarrow> world \<Rightarrow> 'l \<Rightarrow> 'n option \<Rightarrow> pyval \<Rightarrow> pyval
     \<Rightarrow> (error + addr) \<times> world" where
  "generate_spatial_distance_graph lib w0 locations nbr_object num_neighbours radius =
     (case get_nbrs lib w0 locations nbr_object of
        (Inl e, w) \<Rightarrow> (Inl e, w)
      | (Inr nbrs, w) \<Rightarrow>
         (if num_neighbours = PNone
          then new_graph (log_call w RadiusNeighborsGraph) (radius_neighbors_graph lib nbrs radius)
          else if \<not> isinstance_int num_neighbours then (Inl AssertionError, w)
          else (case new_graph (log_call w KNeighborsGraph)
                       (kneighbors_graph lib nbrs num_neighbours) of
                  (Inl e, w) \<Rightarrow> (Inl e, w)
                | (Inr graph_out, w) \<Rightarrow> filter_by_radius w graph_out radius)))"

section \<open>Weight Transform\<close>

text \<open>\<^verbatim>\<open>generate_spatial_weights_fixed_nbrs(locations, num_neighbours, decay_type,
  nbr_object, verbose)\<close>; \<open>decay_type\<close> is not used by the code. The result is the pair
  of references (weight graph, distance graph).\<close>

definition generate_spatial_weights_fixed_nbrs ::
  "('l, 'n) neighbors_lib \<Rightarrow> world \<Rightarrow> 'l \<Rightarrow> pyval \<Rightarrow> 'n option
     \<Rightarrow> (error + addr \<times> addr) \<times> world" where
  "generate_spatial_weights_fixed_nbrs lib w0 locations num_neighbours nbr_object =
     (case generate_spatial_distance_graph lib w0 locations nbr_object num_neighbours PNone of
        (Inl e, w) \<Rightarrow> (Inl e, w)
      | (Inr distance_graph, w) \<Rightarrow>
         (let (h1, graph_out) = alloc (objs w) (objs w ! distance_graph);
              h2 = set_data h1 graph_out (map (\<lambda>x. fl_div (Fin 1) x) (data (h1 ! graph_out)));
              (g, h3) = row_normalize h2 graph_out False
          in (Inr (g, distance_graph), w\<lparr>objs := h3\<rparr>)))"

text \<open>The same function over the arithmetic of the platform. \<^verbatim>\<open>1 / graph_out.data\<close> is
  a new array of floats, whatever the dtype of the distances.\<close>

definition generate_spatial_weights_fixed_nbrs_with ::
  "arith \<Rightarrow> ('l, 'n) neighbors_lib \<Rightarrow> world \<Rightarrow> 'l \<Rightarrow> pyval \<Rightarrow> 'n option
     \<Rightarrow> (error + addr \<times> addr) \<times> world" where
  "generate_spatial_weights_fixed_nbrs_with ar lib w0 locations num_neighbours nbr_object =
     (case generate_spatial_distance_graph lib w0 locations nbr_object num_neighbours PNone of
        (Inl e, w) \<Rightarrow> (Inl e, w)
      | (Inr distance_graph, w) \<Rightarrow>
         (let (h1, graph_out) = alloc (objs w) (objs w ! distance_graph);
              h2 = set_data h1 graph_out (map (\<lambda>x. a_div ar (Fin 1) x) (data (h1 ! graph_out)))
          in case row_normalize_with ar True h2 graph_out False of
               (Inl e, h3) \<Rightarrow> (Inl e, w\<lparr>objs := h3\<rparr>)
             | (Inr g, h3) \<Rightarrow> (Inr (g, distance_graph), w\<lparr>objs := h3\<rparr>)))"

section \<open>Feature matrices\<close>

text \<open>
  A feature matrix is a dense \<^verbatim>\<open>ndarray\<close> (its number of columns and its rows) or a
  sparse \<^verbatim>\<open>csr_matrix\<close>. The feature functions work on a store of such objects.
\<close>

datatype matrix = Dense nat "fl list list" | Sparse csr

type_synonym mstore = "matrix list"

fun issparse :: "matrix \<Rightarrow> bool" where
  "issparse (Sparse _) = True"
| "issparse (Dense _ _) = False"

text \<open>The stored entries of each row of a sparse matrix, as (column, value) pairs, and
  \<^verbatim>\<open>todense()\<close>: entries stored twice for one position are added.\<close>

definition csr_rows :: "csr \<Rightarrow> (int \<times> fl) list list" where
  "csr_rows m = map (\<lambda>i. zip (row_indices m i) (row_data m i)) [0..<nrows m]"

definition dense_row :: "nat \<Rightarrow> (int \<times> fl) list \<Rightarrow> fl list" where
  "dense_row c es = map (\<lambda>j. np_sum (map snd (filter (\<lambda>e. fst e = int j) es))) [0..<c]"

definition todense :: "csr \<Rightarrow> fl list list" where
  "todense m = map (dense_row (ncols m)) (csr_rows m)"

fun mat_nrows :: "matrix \<Rightarrow> nat" where
  "mat_nrows (Dense c rows) = length rows"
| "mat_nrows (Sparse m) = nrows m"

fun mat_ncols :: "matrix \<Rightarrow> nat" where
  "mat_ncols (Dense c rows) = c"
| "mat_ncols (Sparse m) = ncols m"

text \<open>The entries of a matrix, row by row.\<close>

fun dense_of :: "matrix \<Rightarrow> fl list list" where
  "dense_of (Dense c rows) = rows"
| "dense_of (Sparse m) = todense m"

text \<open>A well-formed matrix: the rows of a dense one have its number of columns; a sparse
  one satisfies the CSR invariant with column indices inside its shape.\<close>

fun wf_matrix :: "matrix \<Rightarrow> bool" where
  "wf_matrix (Dense c rows) = (\<forall>r \<in> set rows. length r = c)"
| "wf_matrix (Sparse m) = (csr_inv m \<and> (\<forall>j \<in> set (indices m). 0 \<le> j \<and> j < int (ncols m)))"

section \<open>Feature Fusion\<close>

text \<open>\<^verbatim>\<open>m *= s\<close>, in place: every entry of a dense matrix, every stored entry of a sparse
  one.\<close>

fun scale_matrix :: "matrix \<Rightarrow> fl \<Rightarrow> matrix" where
  "scale_matrix (Dense c rows) s = Dense c (map (map (\<lambda>x. fl_mul x s)) rows)"
| "scale_matrix (Sparse m) s = Sparse (m\<lparr>data := map (\<lambda>x. fl_mul x s) (data m)\<rparr>)"

definition imul :: "mstore \<Rightarrow> addr \<Rightarrow> fl \<Rightarrow> mstore" where
  "imul h a s = h[a := scale_matrix (h ! a) s]"

text \<open>
  The matrix \<^verbatim>\<open>weighted_concatenate\<close> returns is a new object: a dense array, or a
  sparse matrix, which is given by the stored (column, value) entries of each of its
  rows (the storage format scipy chooses for it is left open).
\<close>

datatype fused = FusedDense nat "fl list list" | FusedSparse nat "(int \<times> fl) list list"

fun fused_nrows :: "fused \<Rightarrow> nat" where
  "fused_nrows (FusedDense c rows) = length rows"
| "fused_nrows (FusedSparse c rows) = length rows"

fun fused_ncols :: "fused \<Rightarrow> nat" where
  "fused_ncols (FusedDense c rows) = c"
| "fused_ncols (FusedSparse c rows) = c"

fun fused_dense :: "fused \<Rightarrow> fl list list" where
  "fused_dense (FusedDense c rows) = rows"
| "fused_dense (FusedSparse c rows) = map (dense_row c) rows"

text \<open>\<^verbatim>\<open>np.concatenate((a, b), axis=1)\<close> of two-dimensional arrays: the numbers of rows
  must agree.\<close>

definition np_concatenate :: "nat \<Rightarrow> fl list list \<Rightarrow> nat \<Rightarrow> fl list list \<Rightarrow> error + fused" where
  "np_concatenate ca a cb b =
     (if length a \<noteq> length b then Inl ValueError
      else Inr (FusedDense (ca + cb) (map2 (@) a b)))"

text \<open>\<^verbatim>\<open>sparse.hstack((a, b))\<close>: the numbers of rows must agree; the result holds, in each
  row, the stored entries of \<open>a\<close> followed by those of \<open>b\<close> with their columns moved
  right by the width of \<open>a\<close>.\<close>

definition sparse_hstack :: "csr \<Rightarrow> csr \<Rightarrow> error + fused" where
  "sparse_hstack a b =
     (if nrows a \<noteq> nrows b then Inl ValueError
      else Inr (FusedSparse (ncols a + ncols b)
                  (map2 (\<lambda>ra rb. ra @ map (\<lambda>e. (fst e + int (ncols a), snd e)) rb)
                     (csr_rows a) (csr_rows b))))"

text \<open>The branches of \<^verbatim>\<open>weighted_concatenate\<close> after the scaling: two sparse matrices
  are stacked sparsely; otherwise the sparse one, if any, is made dense and the arrays
  are concatenated.\<close>

fun concatenate_features :: "matrix \<Rightarrow> matrix \<Rightarrow> error + fused" where
  "concatenate_features (Sparse a) (Sparse b) = sparse_hstack a b"
| "concatenate_features (Sparse a) (Dense cb b) = np_concatenate (ncols a) (todense a) cb b"
| "concatenate_features (Dense ca a) (Sparse b) = np_concatenate ca a (ncols b) (todense b)"
| "concatenate_features (Dense ca a) (Dense cb b) = np_concatenate ca a cb b"

text \<open>\<^verbatim>\<open>weighted_concatenate(cell_genes, neighbours, neighbourhood_contribution)\<close>: the two
  arguments are references into the store, which may be the same reference. The result
  is the new matrix, or the error raised, beside the store as the call leaves it.\<close>

definition weighted_concatenate ::
  "mstore \<Rightarrow> addr \<Rightarrow> addr \<Rightarrow> fl \<Rightarrow> (error + fused) \<times> mstore" where
  "weighted_concatenate h0 cell_genes neighbours neighbourhood_contribution =
     (let h1 = imul h0 cell_genes (fl_sqrt (fl_sub (Fin 1) neighbourhood_contribution));
          h2 = imul h1 neighbours (fl_sqrt neighbourhood_contribution)
      in (concatenate_features (h2 ! cell_genes) (h2 ! neighbours), h2))"

text \<open>The values a matrix stores.\<close>

fun stored_values :: "matrix \<Rightarrow> fl list" where
  "stored_values (Dense c rows) = concat rows"
| "stored_values (Sparse m) = data m"

section \<open>Z-Scorer\<close>

text \<open>The largest finite double, by which \<^verbatim>\<open>np.nan_to_num\<close> replaces an infinity.\<close>

definition float_max :: real where
  "float_max = (2 - 1 / 2 ^ 52) * 2 ^ 1023"

fun nan_to_num :: "fl \<Rightarrow> fl" where
  "nan_to_num NaN = Fin 0"
| "nan_to_num PInf = Fin float_max"
| "nan_to_num NInf = Fin (- float_max)"
| "nan_to_num (Fin x) = Fin x"

text \<open>The axis of a two-dimensional array: 0 (or -2) runs down the columns, 1 (or -1)
  along the rows; any other integer is refused.\<close>

datatype direction = Columns | Rows

definition direction_of :: "int \<Rightarrow> error + direction" where
  "direction_of axis =
     (if axis = 0 \<or> axis = - 2 then Inr Columns
      else if axis = 1 \<or> axis = - 1 then Inr Rows
      else Inl AxisError)"

definition column :: "fl list list \<Rightarrow> nat \<Rightarrow> fl list" where
  "column rows j = map (\<lambda>r. r ! j) rows"

text \<open>\<^verbatim>\<open>arr.mean(axis)\<close> of a dense \<open>n \<times> c\<close> array: a one-dimensional array of \<open>c\<close>
  column means or of \<open>n\<close> row means (NaN where there is nothing to average).\<close>

definition dense_mean :: "nat \<Rightarrow> fl list list \<Rightarrow> direction \<Rightarrow> fl list" where
  "dense_mean c rows dir =
     (case dir of
        Columns \<Rightarrow> map (\<lambda>j. fl_div (np_sum (column rows j)) (Fin (real (length rows)))) [0..<c]
      | Rows \<Rightarrow> map (\<lambda>r. fl_div (np_sum r) (Fin (real c))) rows)"

text \<open>\<^verbatim>\<open>m.mean(axis)\<close> of a sparse matrix: scipy multiplies the stored entries by
  \<^verbatim>\<open>1.0 / m.shape[axis]\<close>, a Python division that raises on a zero dimension, and
  sums along the axis. The result is a \<open>1 \<times> c\<close> or an \<open>n \<times> 1\<close> matrix, given
  here by its entries.\<close>

definition sparse_mean :: "csr \<Rightarrow> direction \<Rightarrow> error + fl list" where
  "sparse_mean m dir =
     (let count = (case dir of Columns \<Rightarrow> nrows m | Rows \<Rightarrow> ncols m)
      in if count = 0 then Inl ZeroDivisionError
         else
           (let rows = todense (m\<lparr>data := map (\<lambda>x. fl_mul x (Fin (1 / real count))) (data m)\<rparr>)
            in Inr (case dir of
                      Columns \<Rightarrow> map (\<lambda>j. np_sum (column rows j)) [0..<ncols m]
                    | Rows \<Rightarrow> map np_sum rows)))"

text \<open>An operation between an \<open>n \<times> c\<close> array and a one-dimensional array of length
  \<open>k\<close>, under numpy's broadcasting: the short array is laid along the last axis (the
  columns) when \<open>k = c\<close>, repeated when \<open>k = 1\<close>, and when \<open>c = 1\<close> the single column
  is repeated against it, giving \<open>n \<times> k\<close>; any other pair of shapes raises.\<close>

definition broadcast_1d ::
  "(fl \<Rightarrow> fl \<Rightarrow> fl) \<Rightarrow> nat \<Rightarrow> fl list list \<Rightarrow> fl list \<Rightarrow> error + nat \<times> fl list list" where
  "broadcast_1d f c rows v =
     (if length v = c then Inr (c, map (\<lambda>r. map2 f r v) rows)
      else if length v = 1 then Inr (c, map (map (\<lambda>x. f x (v ! 0))) rows)
      else if c = 1 then Inr (length v, map (\<lambda>r. map (\<lambda>y. f (r ! 0) y) v) rows)
      else Inl ValueError)"

text \<open>The same between an \<open>n \<times> c\<close> matrix and the \<open>1 \<times> c\<close> or \<open>n \<times> 1\<close> matrix
  of the means of that matrix, whose shapes always fit.\<close>

definition broadcast_2d ::
  "(fl \<Rightarrow> fl \<Rightarrow> fl) \<Rightarrow> direction \<Rightarrow> fl list list \<Rightarrow> fl list \<Rightarrow> fl list list" where
  "broadcast_2d f dir rows v =
     (case dir of
        Columns \<Rightarrow> map (\<lambda>r. map2 f r v) rows
      | Rows \<Rightarrow> map2 (\<lambda>r y. map (\<lambda>x. f x y) r) rows v)"

definition square :: "fl \<Rightarrow> fl" where
  "square x = fl_mul x x"

text \<open>\<^verbatim>\<open>variance = E_x2 - np.square(E_x)\<close>\<close>

definition variance_of :: "fl list \<Rightarrow> fl list \<Rightarrow> fl list" where
  "variance_of E_x2 E_x = map2 fl_sub E_x2 (map square E_x)"

definition zscore_dense :: "nat \<Rightarrow> fl list list \<Rightarrow> direction \<Rightarrow> error + matrix" where
  "zscore_dense c rows dir =
     (let E_x = dense_mean c rows dir;
          E_x2 = dense_mean c (map (map square) rows) dir;
          variance = variance_of E_x2 E_x
      in case broadcast_1d fl_sub c rows E_x of
           Inl e \<Rightarrow> Inl e
         | Inr (c1, centred) \<Rightarrow>
            (case broadcast_1d fl_div c1 centred (map fl_sqrt variance) of
               Inl e \<Rightarrow> Inl e
             | Inr (c2, zscored_matrix) \<Rightarrow>
                 Inr (Dense c2 (map (map nan_to_num) zscored_matrix))))"

text \<open>The sparse branch: \<open>squared\<close> is a copy, allocated in the store and squared in
  place there; \<^verbatim>\<open>del squared\<close> only drops the local name.\<close>

definition zscore_sparse :: "mstore \<Rightarrow> addr \<Rightarrow> direction \<Rightarrow> (error + matrix) \<times> mstore" where
  "zscore_sparse h0 matrix dir =
     (case h0 ! matrix of
        Dense c rows \<Rightarrow> (Inl ValueError, h0)
      | Sparse m \<Rightarrow>
         (case sparse_mean m dir of
            Inl e \<Rightarrow> (Inl e, h0)
          | Inr E_x \<Rightarrow>
             (let (h1, squared) = alloc h0 (Sparse m);
                  h2 = h1[squared := (case h1 ! squared of
                                        Sparse q \<Rightarrow> Sparse (q\<lparr>data := map square (data q)\<rparr>)
                                      | Dense c rows \<Rightarrow> Dense c rows)]
              in (case h2 ! squared of
                    Dense c rows \<Rightarrow> (Inl ValueError, h2)
                  | Sparse sq \<Rightarrow>
                     (case sparse_mean sq dir of
                        Inl e \<Rightarrow> (Inl e, h2)
                      | Inr E_x2 \<Rightarrow>
                         (let variance = variance_of E_x2 E_x;
                              m' = (case h2 ! matrix of Sparse x \<Rightarrow> x | Dense c rows \<Rightarrow> m);
                              centred = broadcast_2d fl_sub dir (todense m') E_x;
                              zscored_matrix = broadcast_2d fl_div dir centred (map fl_sqrt variance)
                          in (Inr (Dense (ncols m') (map (map nan_to_num) zscored_matrix)), h2)))))))"

text \<open>\<^verbatim>\<open>zscore(matrix, axis)\<close>: the result is a new dense array, or the error raised,
  beside the store as the call leaves it.\<close>

definition zscore :: "mstore \<Rightarrow> addr \<Rightarrow> int \<Rightarrow> (error + matrix) \<times> mstore" where
  "zscore h0 matrix axis =
     (case direction_of axis of
        Inl e \<Rightarrow> (Inl e, h0)
      | Inr dir \<Rightarrow>
         (case h0 ! matrix of
            Dense c rows \<Rightarrow> (zscore_dense c rows dir, h0)
          | Sparse m \<Rightarrow> zscore_sparse h0 matrix dir))"

section \<open>Properties of the CSR Filter\<close>

lemma map_nth_filter_upt:
  "map (\<lambda>i. xs ! i) (filter (\<lambda>i. Q (xs ! i)) [0..<length xs]) = filter Q xs"
proof -
  have "map (\<lambda>i. xs ! i) (filter (Q \<circ> (\<lambda>i. xs ! i)) [0..<length xs]) = filter Q (map (\<lambda>i. xs ! i) [0..<length xs])"
    by (simp only: filter_map)
  then show ?thesis by (simp add: map_nth comp_def)
qed

lemma set_where_gt: "set (where_gt d t) = {i. i < length d \<and> fl_gt (d ! i) t}"
  by (auto simp: where_gt_def)

lemma np_delete_data:
  "np_delete d (where_gt d t) = Inr (filter (\<lambda>x. \<not> fl_gt x t) d)"
proof -
  have "filter (\<lambda>i. i \<notin> set (where_gt d t)) [0..<length d] = filter (\<lambda>i. \<not> fl_gt (d ! i) t) [0..<length d]"
    by (rule filter_cong) (auto simp: set_where_gt)
  moreover have "\<not> (\<exists>i \<in> set (where_gt d t). length d \<le> i)"
    by (auto simp: set_where_gt)
  ultimately show ?thesis
    using map_nth_filter_upt[of d "\<lambda>x. \<not> fl_gt x t"] by (simp add: np_delete_def del: set_filter)
qed

text \<open>Deleting the same positions from a second array of the same length keeps the
  entries paired with the kept data.\<close>

lemma np_delete_indices:
  assumes "length ix = length d"
  shows "np_delete ix (where_gt d t) = Inr (map snd (filter (\<lambda>p. \<not> fl_gt (fst p) t) (zip d ix)))"
proof -
  let ?z = "zip d ix"
  have len: "length ?z = length d" using assms by simp
  have e1: "filter (\<lambda>i. i \<notin> set (where_gt d t)) [0..<length ix] = filter (\<lambda>i. \<not> fl_gt (fst (?z ! i)) t) [0..<length ?z]"
    using assms by (intro filter_cong) (auto simp: set_where_gt)
  have e2: "map (\<lambda>i. ix ! i) (filter (\<lambda>i. \<not> fl_gt (fst (?z ! i)) t) [0..<length ?z])
        = map snd (map (\<lambda>i. ?z ! i) (filter (\<lambda>i. \<not> fl_gt (fst (?z ! i)) t) [0..<length ?z]))"
    using assms by simp
  have ne: "\<not> (\<exists>i \<in> set (where_gt d t). length ix \<le> i)"
    using assms by (auto simp: set_where_gt)
  show ?thesis
    unfolding np_delete_def using ne
    by (simp only: e1 e2 map_nth_filter_upt[where Q = "\<lambda>p. \<not> fl_gt (fst p) t"] if_False)
qed

lemma nondecreasing_sorted: "nondecreasing xs \<longleftrightarrow> sorted xs"
  by (induction xs rule: nondecreasing.induct) (auto intro: order_trans)

lemma takeWhile_sorted_less:
  "sorted xs \<Longrightarrow> takeWhile (\<lambda>x. x < v) xs = filter (\<lambda>x. x < (v::int)) xs"
  by (induction xs) (auto intro!: filter_False[symmetric] simp: )

lemma takeWhile_sorted_le:
  "sorted xs \<Longrightarrow> takeWhile (\<lambda>x. x \<le> v) xs = filter (\<lambda>x. x \<le> (v::int)) xs"
  by (induction xs) (auto intro!: filter_False[symmetric] simp: )

lemma sorted_where_gt: "sorted (map int (where_gt d t))"
  unfolding where_gt_def
  by (rule sorted_filter) (simp add: sorted_map sorted_wrt_iff_nth_less)

lemma filter_less_upt: "filter (\<lambda>i. i < k) [0..<n] = [0..<min k n]"
proof (induction n)
  case 0
  then show ?case by simp
next
  case (Suc n)
  show ?case
  proof (cases "n < k")
    case True
    then have "min k (Suc n) = Suc (min k n)" by simp
    with Suc True show ?thesis by simp
  next
    case False
    then have "min k (Suc n) = min k n" by simp
    with Suc False show ?thesis by simp
  qed
qed

lemma count_where_gt_less:
  "length (filter (\<lambda>i. i < k) (where_gt d t)) = length (filter (\<lambda>x. fl_gt x t) (take k d))"
proof -
  have "filter (\<lambda>i. i < k) (where_gt d t) = filter (\<lambda>i. fl_gt (d ! i) t) [0..<min k (length d)]"
    unfolding where_gt_def by (simp only: filter_filter conj_commute filter_less_upt[symmetric])
  also have "\<dots> = filter (\<lambda>i. fl_gt (take k d ! i) t) [0..<length (take k d)]"
    by (rule filter_cong) (auto simp: min.commute)
  finally have a: "length (filter (\<lambda>i. i < k) (where_gt d t)) =
      length (filter (\<lambda>i. fl_gt (take k d ! i) t) [0..<length (take k d)])"
    by simp
  have "length (filter (\<lambda>x. fl_gt x t) (take k d)) =
      length (map (\<lambda>i. take k d ! i) (filter (\<lambda>i. fl_gt (take k d ! i) t) [0..<length (take k d)]))"
    using arg_cong[OF map_nth_filter_upt[of "take k d" "\<lambda>x. fl_gt x t"], of length] by simp
  with a show ?thesis by (simp only: length_map)
qed

lemma searchsorted_left_where_gt:
  assumes "0 \<le> v"
  shows "searchsorted_left (sort (map int (where_gt d t))) v
       = length (filter (\<lambda>x. fl_gt x t) (take (nat v) d))"
proof -
  have s: "sort (map int (where_gt d t)) = map int (where_gt d t)"
    by (rule sorted_sort_id) (rule sorted_where_gt)
  have "searchsorted_left (map int (where_gt d t)) v = length (filter (\<lambda>x. x < v) (map int (where_gt d t)))"
    unfolding searchsorted_left_def by (simp only: takeWhile_sorted_less[OF sorted_where_gt])
  also have "\<dots> = length (filter (\<lambda>i. i < nat v) (where_gt d t))"
    using assms by (simp add: filter_map comp_def zless_nat_eq_int_zless nat_less_iff)
  finally show ?thesis by (simp only: s count_where_gt_less)
qed

lemma searchsorted_right_where_gt:
  assumes "int (length d) \<le> v"
  shows "searchsorted_right (sort (map int (where_gt d t))) v
       = length (filter (\<lambda>x. fl_gt x t) d)"
proof -
  have s: "sort (map int (where_gt d t)) = map int (where_gt d t)"
    by (rule sorted_sort_id) (rule sorted_where_gt)
  have "searchsorted_right (map int (where_gt d t)) v = length (filter (\<lambda>x. x \<le> v) (map int (where_gt d t)))"
    unfolding searchsorted_right_def by (simp only: takeWhile_sorted_le[OF sorted_where_gt])
  also have "filter (\<lambda>x. x \<le> v) (map int (where_gt d t)) = map int (where_gt d t)"
    using assms by (intro filter_True) (auto simp: set_where_gt)
  also have "length (map int (where_gt d t)) = length (filter (\<lambda>i. i < length d) (where_gt d t))"
    by (simp add: set_where_gt)
  finally show ?thesis by (simp only: s count_where_gt_less take_all order_refl)
qed

lemma cumsum_from_diff:
  "cumsum_from acc (np_diff (x # xs)) = map (\<lambda>y. acc + y - x) xs"
  by (induction xs arbitrary: acc x) auto

lemma np_cumsum_diff: "np_cumsum (np_diff (x # xs)) = map (\<lambda>y. y - x) xs"
  by (simp add: np_cumsum_def cumsum_from_diff)

lemma csr_inv_bounds:
  assumes "csr_inv g" "v \<in> set (indptr g)"
  shows "0 \<le> v \<and> v \<le> int (length (data g))"
proof -
  from assms(1) have ne: "indptr g \<noteq> []" and s: "sorted (indptr g)"
    and h: "hd (indptr g) = 0" and l: "last (indptr g) = int (length (data g))"
    by (auto simp: csr_inv_def nondecreasing_sorted)
  from assms(2) obtain i where i: "i < length (indptr g)" "indptr g ! i = v"
    by (auto simp: in_set_conv_nth)
  have "indptr g ! 0 \<le> indptr g ! i" using s i(1) by (intro sorted_nth_mono) auto
  moreover have "indptr g ! i \<le> indptr g ! (length (indptr g) - 1)"
    using s i(1) by (intro sorted_nth_mono) auto
  ultimately show ?thesis using ne h l i(2) by (simp add: hd_conv_nth last_conv_nth)
qed

lemma search_sorted_inclusive_where_gt:
  assumes "csr_inv g"
  shows "search_sorted_inclusive (sort (map int (where_gt (data g) t))) (indptr g)
       = map (\<lambda>v. length (filter (\<lambda>x. fl_gt x t) (take (nat v) (data g)))) (indptr g)"
proof -
  let ?sa = "sort (map int (where_gt (data g) t))"
  let ?c = "\<lambda>v. length (filter (\<lambda>x. fl_gt x t) (take (nat v) (data g)))"
  from assms have ne: "indptr g \<noteq> []" and l: "last (indptr g) = int (length (data g))"
    by (auto simp: csr_inv_def)
  have a: "map (searchsorted_left ?sa) (butlast (indptr g)) = map ?c (butlast (indptr g))"
  proof (rule map_cong[OF refl])
    fix v assume "v \<in> set (butlast (indptr g))"
    then have "v \<in> set (indptr g)" by (rule in_set_butlastD)
    with assms have "0 \<le> v" using csr_inv_bounds by blast
    then show "searchsorted_left ?sa v = ?c v" by (rule searchsorted_left_where_gt)
  qed
  have b: "searchsorted_right ?sa (last (indptr g)) = ?c (last (indptr g))"
    using searchsorted_right_where_gt[of "data g" "last (indptr g)" t] l by simp
  have "map ?c (indptr g) = map ?c (butlast (indptr g)) @ [?c (last (indptr g))]"
  proof -
    have "map ?c (indptr g) = map ?c (butlast (indptr g) @ [last (indptr g)])"
      using ne by simp
    then show ?thesis by (simp only: map_append list.map)
  qed
  then show ?thesis using ne a b by (simp add: search_sorted_inclusive_def)
qed

lemma map2_minus_map: "map2 (-) xs (map f xs) = map (\<lambda>v. v - f v) (xs::int list)"
  by (induction xs) auto

lemma new_indptr:
  assumes "csr_inv g"
  shows "np_histogram (map int (where_gt (data g) t)) (indptr g)
          = Inr (np_diff (map (\<lambda>v. int (length (filter (\<lambda>x. fl_gt x t) (take (nat v) (data g))))) (indptr g)))"
    and "sub_tail (indptr g) (np_cumsum (np_diff (map (\<lambda>v. int (length (filter (\<lambda>x. fl_gt x t) (take (nat v) (data g))))) (indptr g))))
          = map (\<lambda>v. int (length (filter (\<lambda>x. \<not> fl_gt x t) (take (nat v) (data g))))) (indptr g)"
proof -
  let ?c = "\<lambda>v. int (length (filter (\<lambda>x. fl_gt x t) (take (nat v) (data g))))"
  let ?k = "\<lambda>v. int (length (filter (\<lambda>x. \<not> fl_gt x t) (take (nat v) (data g))))"
  from assms have nd: "nondecreasing (indptr g)" by (simp add: csr_inv_def)
  show "np_histogram (map int (where_gt (data g) t)) (indptr g) = Inr (np_diff (map ?c (indptr g)))"
    using nd by (simp only: np_histogram_def search_sorted_inclusive_where_gt[OF assms] map_map comp_def not_True_eq_False if_False)
  from assms obtain ps where p: "indptr g = 0 # ps"
    by (cases "indptr g") (auto simp: csr_inv_def)
  have kc: "v - ?c v = ?k v" if "v \<in> set (indptr g)" for v
  proof -
    from csr_inv_bounds[OF assms that] have "length (take (nat v) (data g)) = nat v" "0 \<le> v" by auto
    then show ?thesis
      using sum_length_filter_compl[of "\<lambda>x. fl_gt x t" "take (nat v) (data g)"] by linarith
  qed
  have "sub_tail (indptr g) (np_cumsum (np_diff (map ?c (indptr g)))) = 0 # map (\<lambda>v. v - ?c v) ps"
  proof -
    have "np_cumsum (np_diff (map ?c (indptr g))) = map (\<lambda>y. y - ?c 0) (map ?c ps)"
      by (simp only: p list.map np_cumsum_diff)
    also have "\<dots> = map ?c ps" by simp
    finally have "sub_tail (indptr g) (np_cumsum (np_diff (map ?c (indptr g)))) = 0 # map2 (-) ps (map ?c ps)"
      by (simp only: p sub_tail_def list.case)
    then show ?thesis by (simp only: map2_minus_map)
  qed
  also have "\<dots> = map (\<lambda>v. v - ?c v) (indptr g)" by (simp add: p)
  also have "\<dots> = map ?k (indptr g)" by (rule map_cong[OF refl]) (rule kc)
  finally show "sub_tail (indptr g) (np_cumsum (np_diff (map ?c (indptr g)))) = map ?k (indptr g)" .
qed

lemma filter_slice:
  assumes "a \<le> b"
  shows "take (length (filter Q (take b d)) - length (filter Q (take a d)))
           (drop (length (filter Q (take a d))) (filter Q d))
         = filter Q (take (b - a) (drop a d))"
proof -
  have tb: "take b d = take a d @ take (b - a) (drop a d)"
    using take_add[of a "b - a" d] assms by simp
  have "d = take b d @ drop b d" by simp
  then have "filter Q d = filter Q (take a d) @ filter Q (take (b - a) (drop a d)) @ filter Q (drop b d)"
    by (metis tb filter_append append_assoc)
  then show ?thesis by (simp add: tb)
qed

lemma remove_greater_than_in_place:
  assumes "g0 < length h0" "csr_inv (h0 ! g0)"
  shows "remove_greater_than h0 g0 t False = (Inr g0, h0[g0 := filtered (h0 ! g0) t])"
proof -
  let ?g = "h0 ! g0"
  have li: "length (indices ?g) = length (data ?g)" using assms(2) by (simp add: csr_inv_def)
  show ?thesis
    using assms(1)
    by (simp add: remove_greater_than_def Let_def set_data_def set_indices_def set_indptr_def
        np_delete_data np_delete_indices[OF li] new_indptr[OF assms(2)] filtered_def)
qed

lemma remove_greater_than_copy:
  assumes "csr_inv (h0 ! g0)"
  shows "remove_greater_than h0 g0 t True = (Inr (length h0), h0 @ [filtered (h0 ! g0) t])"
proof -
  let ?g = "h0 ! g0"
  have li: "length (indices ?g) = length (data ?g)" using assms by (simp add: csr_inv_def)
  show ?thesis
    by (simp add: remove_greater_than_def Let_def set_data_def set_indices_def set_indptr_def alloc_def
        np_delete_data np_delete_indices[OF li] new_indptr[OF assms] filtered_def)
qed

lemma remove_greater_than_result:
  assumes "g0 < length h0" "csr_inv (h0 ! g0)"
  obtains g h where "remove_greater_than h0 g0 t copy = (Inr g, h)" "g < length h"
    "h ! g = filtered (h0 ! g0) t" "length h0 \<le> length h"
    "\<forall>a < length h0. a \<noteq> g \<longrightarrow> h ! a = h0 ! a"
proof (cases copy)
  case True
  show ?thesis
    by (rule that[of "length h0" "h0 @ [filtered (h0 ! g0) t]"])
       (simp_all add: True remove_greater_than_copy[OF assms(2)] nth_append)
next
  case False
  show ?thesis
    by (rule that[of g0 "h0[g0 := filtered (h0 ! g0) t]"])
       (simp_all add: False remove_greater_than_in_place[OF assms] assms(1))
qed

lemma length_filter_take_mono:
  assumes "a \<le> b"
  shows "length (filter Q (take a d)) \<le> length (filter Q (take b d))"
proof -
  have "take b d = take a d @ take (b - a) (drop a d)"
    using take_add[of a "b - a" d] assms by simp
  then show ?thesis by simp
qed

lemma map_fst_filter_zip:
  assumes "length ix = length d"
  shows "map fst (filter (\<lambda>p. Q (fst p)) (zip d ix)) = filter Q d"
proof -
  have "filter Q (map fst (zip d ix)) = map fst (filter (Q \<circ> fst) (zip d ix))"
    by (rule filter_map)
  then show ?thesis using assms by (simp add: comp_def)
qed

lemma slice_bound_in_range: "0 \<le> v \<Longrightarrow> nat v \<le> n \<Longrightarrow> slice_bound n v = nat v"
  by (simp add: slice_bound_def)

lemma py_slice_in_range:
  assumes "0 \<le> a" "0 \<le> b" "nat a \<le> length xs" "nat b \<le> length xs"
  shows "py_slice xs a b = take (nat b - nat a) (drop (nat a) xs)"
  using assms by (simp add: py_slice_def slice_bound_in_range Let_def)

lemma filtered_indptr_last:
  "int (length d) \<le> v \<Longrightarrow> length (filter Q (take (nat v) d)) = length (filter Q d)"
  by simp

lemma csr_inv_filtered:
  assumes "csr_inv g"
  shows "csr_inv (filtered g t)"
proof -
  let ?Q = "\<lambda>x. \<not> fl_gt x t"
  let ?k = "\<lambda>v. int (length (filter ?Q (take (nat v) (data g))))"
  from assms have ne: "indptr g \<noteq> []" and s: "sorted (indptr g)"
    and h: "hd (indptr g) = 0" and l: "last (indptr g) = int (length (data g))"
    and li: "length (indices g) = length (data g)"
    by (auto simp: csr_inv_def nondecreasing_sorted)
  have mono: "?k v \<le> ?k w" if "v \<le> w" for v w
    using length_filter_take_mono[of "nat v" "nat w" ?Q "data g"] that by simp
  have srt: "sorted (map ?k (indptr g))"
    by (rule sorted_wrt_map_mono[OF s]) (rule mono)
  have hd0: "hd (map ?k (indptr g)) = 0" using ne h by (simp add: hd_map)
  have lst: "last (map ?k (indptr g)) = int (length (filter ?Q (data g)))"
    using ne l by (simp add: last_map)
  have len: "length (map snd (filter (\<lambda>p. ?Q (fst p)) (zip (data g) (indices g))))
      = length (filter ?Q (data g))"
    using arg_cong[OF map_fst_filter_zip[OF li, of ?Q], of length] by simp
  show ?thesis
    unfolding csr_inv_def nondecreasing_sorted filtered_def
    using ne srt hd0 lst len by simp
qed

lemma nrows_filtered: "nrows (filtered g t) = nrows g"
  by (simp add: nrows_def filtered_def)

lemma csr_inv_row_bounds:
  assumes "csr_inv g" "i < nrows g"
  shows "0 \<le> indptr g ! i" "indptr g ! i \<le> indptr g ! Suc i"
    "indptr g ! Suc i \<le> int (length (data g))"
proof -
  from assms(2) have i: "i < length (indptr g)" "Suc i < length (indptr g)"
    by (auto simp: nrows_def)
  from assms(1) have s: "sorted (indptr g)" by (simp add: csr_inv_def nondecreasing_sorted)
  show "0 \<le> indptr g ! i" using csr_inv_bounds[OF assms(1), of "indptr g ! i"] i by simp
  show "indptr g ! i \<le> indptr g ! Suc i" using s i by (intro sorted_nth_mono) auto
  show "indptr g ! Suc i \<le> int (length (data g))"
    using csr_inv_bounds[OF assms(1), of "indptr g ! Suc i"] i by simp
qed

lemma row_data_filtered:
  assumes "csr_inv g" "i < nrows g"
  shows "row_data (filtered g t) i = filter (\<lambda>x. \<not> fl_gt x t) (row_data g i)"
proof -
  let ?Q = "\<lambda>x. \<not> fl_gt x t"
  let ?a = "nat (indptr g ! i)" and ?b = "nat (indptr g ! Suc i)"
  let ?k = "\<lambda>n. length (filter ?Q (take n (data g)))"
  note b = csr_inv_row_bounds[OF assms]
  from assms(2) have i: "i < length (indptr g)" "Suc i < length (indptr g)"
    by (auto simp: nrows_def)
  have ab: "?a \<le> ?b" "?b \<le> length (data g)" using b by auto
  have kle: "?k n \<le> length (filter ?Q (data g))" for n
    using length_filter_take_mono[of n "max n (length (data g))" ?Q "data g"] by simp
  have "row_data (filtered g t) i = py_slice (filter ?Q (data g)) (int (?k ?a)) (int (?k ?b))"
    using i by (simp add: row_data_def filtered_def)
  also have "\<dots> = take (?k ?b - ?k ?a) (drop (?k ?a) (filter ?Q (data g)))"
    using kle by (subst py_slice_in_range) simp_all
  also have "\<dots> = filter ?Q (take (?b - ?a) (drop ?a (data g)))"
    by (rule filter_slice[OF ab(1)])
  also have "take (?b - ?a) (drop ?a (data g)) = row_data g i"
    unfolding row_data_def using b ab by (subst py_slice_in_range) simp_all
  finally show ?thesis .
qed

lemma length_filter_zip_take:
  assumes "length ix = length d"
  shows "length (filter (\<lambda>p. Q (fst p)) (take n (zip d ix))) = length (filter Q (take n d))"
proof -
  have "length (take n ix) = length (take n d)" using assms by simp
  from arg_cong[OF map_fst_filter_zip[OF this, of Q], of length]
  show ?thesis by (simp add: take_zip)
qed

lemma row_indices_filtered:
  assumes "csr_inv g" "i < nrows g"
  shows "row_indices (filtered g t) i =
     map snd (filter (\<lambda>p. \<not> fl_gt (fst p) t) (zip (row_data g i) (row_indices g i)))"
proof -
  let ?Q = "\<lambda>p. \<not> fl_gt (fst p) t"
  let ?z = "zip (data g) (indices g)"
  let ?a = "nat (indptr g ! i)" and ?b = "nat (indptr g ! Suc i)"
  let ?k = "\<lambda>n. length (filter ?Q (take n ?z))"
  note b = csr_inv_row_bounds[OF assms]
  from assms(1) have li: "length (indices g) = length (data g)" by (simp add: csr_inv_def)
  from assms(2) have i: "i < length (indptr g)" "Suc i < length (indptr g)"
    by (auto simp: nrows_def)
  have ab: "?a \<le> ?b" "?b \<le> length (data g)" using b by auto
  have kle: "?k n \<le> length (filter ?Q ?z)" for n
    using length_filter_take_mono[of n "max n (length ?z)" ?Q ?z] by simp
  have "row_indices (filtered g t) i = py_slice (map snd (filter ?Q ?z)) (int (?k ?a)) (int (?k ?b))"
    using i by (simp add: row_indices_def filtered_def
        length_filter_zip_take[OF li, of "\<lambda>x. \<not> fl_gt x t"])
  also have "\<dots> = take (?k ?b - ?k ?a) (drop (?k ?a) (map snd (filter ?Q ?z)))"
    using kle by (subst py_slice_in_range) simp_all
  also have "\<dots> = map snd (take (?k ?b - ?k ?a) (drop (?k ?a) (filter ?Q ?z)))"
    by (simp only: take_map drop_map)
  also have "take (?k ?b - ?k ?a) (drop (?k ?a) (filter ?Q ?z)) = filter ?Q (take (?b - ?a) (drop ?a ?z))"
    by (rule filter_slice[OF ab(1)])
  also have "take (?b - ?a) (drop ?a ?z) = zip (row_data g i) (row_indices g i)"
    unfolding row_data_def row_indices_def using b ab li
    by (simp add: py_slice_in_range take_zip drop_zip)
  finally show ?thesis .
qed

text \<open>
  C1. On a graph that satisfies the CSR invariant, \<^verbatim>\<open>remove_greater_than\<close> returns a
  graph whose \<open>data\<close> is the old \<open>data\<close> without the entries strictly greater than
  the threshold, each kept entry still paired with its column index: no kept entry is
  greater than the threshold, the entries equal to the threshold are all kept, and the
  number of entries removed is the number of entries greater than the threshold. On
  \<open>data = [1, 5, 3, 9]\<close>, \<open>indptr = [0, 2, 4]\<close> and threshold 4 the result has
  \<open>data = [1, 3]\<close> and \<open>indptr = [0, 1, 2]\<close>.
\<close>

theorem remove_greater_than_removes_exactly:
  "(g0 < length h0 \<and> csr_inv (h0 ! g0) \<longrightarrow>
     (\<exists>g h. remove_greater_than h0 g0 threshold copy = (Inr g, h) \<and> g < length h \<and>
        data (h ! g) = filter (\<lambda>x. \<not> fl_gt x threshold) (data (h0 ! g0)) \<and>
        zip (data (h ! g)) (indices (h ! g))
          = filter (\<lambda>p. \<not> fl_gt (fst p) threshold) (zip (data (h0 ! g0)) (indices (h0 ! g0))) \<and>
        (\<forall>x \<in> set (data (h ! g)). \<not> fl_gt x threshold) \<and>
        filter (\<lambda>x. x = threshold) (data (h ! g)) = filter (\<lambda>x. x = threshold) (data (h0 ! g0)) \<and>
        length (data (h0 ! g0)) - length (data (h ! g))
          = length (filter (\<lambda>x. fl_gt x threshold) (data (h0 ! g0))))) \<and>
   remove_greater_than
     [\<lparr>data = [Fin 1, Fin 5, Fin 3, Fin 9], indices = [j1, j2, j3, j4], indptr = [0, 2, 4], ncols = m\<rparr>]
     0 (Fin 4) False
   = (Inr 0, [\<lparr>data = [Fin 1, Fin 3], indices = [j1, j3], indptr = [0, 1, 2], ncols = m\<rparr>])"
proof (intro conjI impI)
  assume a: "g0 < length h0 \<and> csr_inv (h0 ! g0)"
  let ?d = "data (h0 ! g0)" and ?ix = "indices (h0 ! g0)"
  let ?Q = "\<lambda>x. \<not> fl_gt x threshold"
  from a have li: "length ?ix = length ?d" by (simp add: csr_inv_def)
  from a obtain g h where r: "remove_greater_than h0 g0 threshold copy = (Inr g, h)"
    "g < length h" "h ! g = filtered (h0 ! g0) threshold"
    by (elim conjE remove_greater_than_result[of g0 h0 threshold copy])
  have d: "data (h ! g) = filter ?Q ?d" by (simp add: r(3) filtered_def)
  have z: "zip (data (h ! g)) (indices (h ! g)) = filter (\<lambda>p. ?Q (fst p)) (zip ?d ?ix)"
  proof -
    let ?F = "filter (\<lambda>p. ?Q (fst p)) (zip ?d ?ix)"
    have e: "map fst ?F = filter ?Q ?d" by (rule map_fst_filter_zip[OF li])
    have "zip (filter ?Q ?d) (map snd ?F) = ?F"
      unfolding e[symmetric] by (rule zip_map_fst_snd)
    then show ?thesis by (simp add: r(3) filtered_def)
  qed
  have eq: "filter (\<lambda>x. x = threshold) (data (h ! g)) = filter (\<lambda>x. x = threshold) ?d"
  proof -
    have "\<not> fl_gt threshold threshold" by (cases threshold) auto
    then show ?thesis unfolding d filter_filter by (intro filter_cong) auto
  qed
  have cnt: "length ?d - length (data (h ! g)) = length (filter (\<lambda>x. fl_gt x threshold) ?d)"
    using sum_length_filter_compl[of "\<lambda>x. fl_gt x threshold" ?d] by (simp add: d)
  show "\<exists>g h. remove_greater_than h0 g0 threshold copy = (Inr g, h) \<and> g < length h \<and>
        data (h ! g) = filter ?Q ?d \<and>
        zip (data (h ! g)) (indices (h ! g)) = filter (\<lambda>p. ?Q (fst p)) (zip ?d ?ix) \<and>
        (\<forall>x \<in> set (data (h ! g)). ?Q x) \<and>
        filter (\<lambda>x. x = threshold) (data (h ! g)) = filter (\<lambda>x. x = threshold) ?d \<and>
        length ?d - length (data (h ! g)) = length (filter (\<lambda>x. fl_gt x threshold) ?d)"
    using r(1,2) d z eq cnt by (intro exI[of _ g] exI[of _ h]) simp
next
  show "remove_greater_than
     [\<lparr>data = [Fin 1, Fin 5, Fin 3, Fin 9], indices = [j1, j2, j3, j4], indptr = [0, 2, 4], ncols = m\<rparr>]
     0 (Fin 4) False
   = (Inr 0, [\<lparr>data = [Fin 1, Fin 3], indices = [j1, j3], indptr = [0, 1, 2], ncols = m\<rparr>])"
    by code_simp
qed

lemma length_py_slice: "length xs = length ys \<Longrightarrow> length (py_slice xs a b) = length (py_slice ys a b)"
  by (simp add: py_slice_def Let_def)

lemma zip_filter_rows:
  assumes "length ri = length r"
  shows "zip (filter Q r) (map snd (filter (\<lambda>p. Q (fst p)) (zip r ri)))
       = filter (\<lambda>p. Q (fst p)) (zip r ri)"
proof -
  let ?F = "filter (\<lambda>p. Q (fst p)) (zip r ri)"
  have e: "map fst ?F = filter Q r" by (rule map_fst_filter_zip[OF assms])
  show ?thesis unfolding e[symmetric] by (rule zip_map_fst_snd)
qed

text \<open>
  C2. On a graph that satisfies the CSR invariant, the graph returned by
  \<^verbatim>\<open>remove_greater_than\<close> satisfies it again (\<open>indptr\<close> starts at 0, does not decrease
  and ends at the new length of \<open>data\<close>, which is the length of \<open>indices\<close>), it has the
  same number of rows, and row \<open>i\<close> of the result, read through the new \<open>indptr\<close>, is
  row \<open>i\<close> of the input without its entries above the threshold.
\<close>

theorem remove_greater_than_preserves_csr_inv:
  assumes "g0 < length h0" and "csr_inv (h0 ! g0)"
  shows "\<exists>g h. remove_greater_than h0 g0 threshold copy = (Inr g, h) \<and> g < length h \<and>
     csr_inv (h ! g) \<and> nrows (h ! g) = nrows (h0 ! g0) \<and>
     (\<forall>i < nrows (h0 ! g0).
        row_data (h ! g) i = filter (\<lambda>x. \<not> fl_gt x threshold) (row_data (h0 ! g0) i) \<and>
        zip (row_data (h ! g) i) (row_indices (h ! g) i)
          = filter (\<lambda>p. \<not> fl_gt (fst p) threshold)
              (zip (row_data (h0 ! g0) i) (row_indices (h0 ! g0) i)))"
proof -
  let ?g0 = "h0 ! g0"
  let ?Q = "\<lambda>x. \<not> fl_gt x threshold"
  from assms obtain g h where r: "remove_greater_than h0 g0 threshold copy = (Inr g, h)"
    "g < length h" "h ! g = filtered ?g0 threshold"
    by (rule remove_greater_than_result)
  from assms(2) have li: "length (indices ?g0) = length (data ?g0)" by (simp add: csr_inv_def)
  have rows: "row_data (h ! g) i = filter ?Q (row_data ?g0 i) \<and>
        zip (row_data (h ! g) i) (row_indices (h ! g) i)
          = filter (\<lambda>p. ?Q (fst p)) (zip (row_data ?g0 i) (row_indices ?g0 i))"
    if i: "i < nrows ?g0" for i
  proof -
    have lr: "length (row_indices ?g0 i) = length (row_data ?g0 i)"
      unfolding row_indices_def row_data_def by (rule length_py_slice[OF li])
    show ?thesis
      unfolding r(3) row_data_filtered[OF assms(2) i] row_indices_filtered[OF assms(2) i]
      using zip_filter_rows[OF lr, of ?Q] by simp
  qed
  have inv: "csr_inv (h ! g)" unfolding r(3) by (rule csr_inv_filtered[OF assms(2)])
  have nr: "nrows (h ! g) = nrows ?g0" unfolding r(3) by (rule nrows_filtered)
  show ?thesis using r(1,2) inv nr rows by blast
qed

theorem remove_greater_than_preserves_csr_inv_witness:
  "let ex = \<lparr>data = [Fin 1, Fin 5, Fin 3, Fin 9], indices = [1, 0, 1, 0], indptr = [0, 2, 4], ncols = 2\<rparr>
   in (0::nat) < length [ex] \<and> csr_inv ([ex] ! 0) \<and>
     (\<exists>g h. remove_greater_than [ex] 0 (Fin 4) False = (Inr g, h) \<and> g < length h \<and>
     csr_inv (h ! g) \<and> nrows (h ! g) = nrows ([ex] ! 0) \<and>
     (\<forall>i < nrows ([ex] ! 0).
        row_data (h ! g) i = filter (\<lambda>x. \<not> fl_gt x (Fin 4)) (row_data ([ex] ! 0) i) \<and>
        zip (row_data (h ! g) i) (row_indices (h ! g) i)
          = filter (\<lambda>p. \<not> fl_gt (fst p) (Fin 4))
              (zip (row_data ([ex] ! 0) i) (row_indices ([ex] ! 0) i))))"
proof -
  define ex where "ex = \<lparr>data = [Fin 1, Fin 5, Fin 3, Fin 9], indices = [1, 0, 1, 0], indptr = [0, 2, 4], ncols = 2\<rparr>"
  have h1: "(0::nat) < length [ex]" by simp
  have h2: "csr_inv ([ex] ! 0)" by (simp add: ex_def csr_inv_def)
  show ?thesis
    unfolding Let_def ex_def[symmetric]
    using h1 h2 remove_greater_than_preserves_csr_inv[OF h1 h2, of "Fin 4" False] by blast
qed

theorem remove_greater_than_removes_exactly_witness:
  "let ex = \<lparr>data = [Fin 1, Fin 5, Fin 3, Fin 9], indices = [1, 0, 1, 0], indptr = [0, 2, 4], ncols = 2\<rparr>
   in (0::nat) < length [ex] \<and> csr_inv ([ex] ! 0) \<and>
     (\<exists>g h. remove_greater_than [ex] 0 (Fin 4) False = (Inr g, h) \<and> g < length h \<and>
        data (h ! g) = filter (\<lambda>x. \<not> fl_gt x (Fin 4)) (data ([ex] ! 0)) \<and>
        (\<forall>x \<in> set (data (h ! g)). \<not> fl_gt x (Fin 4)) \<and>
        length (data ([ex] ! 0)) - length (data (h ! g))
          = length (filter (\<lambda>x. fl_gt x (Fin 4)) (data ([ex] ! 0))))"
proof -
  define ex where "ex = \<lparr>data = [Fin 1, Fin 5, Fin 3, Fin 9], indices = [1, 0, 1, 0], indptr = [0, 2, 4], ncols = 2\<rparr>"
  have h: "(0::nat) < length [ex] \<and> csr_inv ([ex] ! 0)" by (simp add: ex_def csr_inv_def)
  show ?thesis
    unfolding Let_def ex_def[symmetric]
    using h remove_greater_than_removes_exactly[of 0 "[ex]" "Fin 4" False] by blast
qed

section \<open>Properties of the Row Normalizer\<close>

lemma length_normalize_row: "length (normalize_row r) = length r"
  by (simp add: normalize_row_def)

lemma normalize_row_Nil: "normalize_row [] = []"
  by (simp add: normalize_row_def)

lemma row_pairs_Cons2: "row_pairs (x # y # ys) = (x, y) # row_pairs (y # ys)"
  by (simp add: row_pairs_def)

lemma row_pairs_single: "row_pairs [x] = []"
  by (simp add: row_pairs_def)

lemma loop_step:
  assumes "0 \<le> s" "s \<le> e" "nat e \<le> length d"
  shows "(if fl_ne (np_sum (py_slice d s e)) (Fin 0)
          then py_slice_update d s e (map (\<lambda>x. fl_div x (np_sum (py_slice d s e))) (py_slice d s e))
          else d)
       = take (nat s) d @ normalize_row (py_slice d s e) @ drop (nat e) d"
proof -
  have sl: "py_slice d s e = take (nat e - nat s) (drop (nat s) d)"
    using assms by (intro py_slice_in_range) auto
  have sb: "slice_bound (length d) s = nat s" "slice_bound (length d) e = nat e"
    using assms by (auto intro: slice_bound_in_range)
  have whole: "d = take (nat s) d @ py_slice d s e @ drop (nat e) d"
  proof -
    have "take (nat e) d = take (nat s) d @ take (nat e - nat s) (drop (nat s) d)"
      using take_add[of "nat s" "nat e - nat s" d] assms by simp
    then have "take (nat e) d @ drop (nat e) d = take (nat s) d @ py_slice d s e @ drop (nat e) d"
      by (simp add: sl)
    then show ?thesis by simp
  qed
  show ?thesis
  proof (cases "fl_ne (np_sum (py_slice d s e)) (Fin 0)")
    case True
    then have "py_slice d s e \<noteq> []" by (auto simp: np_sum_def)
    then have "nat s < nat e" using sl by (cases "nat s < nat e") auto
    then show ?thesis using True by (simp add: py_slice_update_def sb normalize_row_def)
  next
    case False
    then show ?thesis using whole by (simp add: normalize_row_def)
  qed
qed

lemma row_pairs_props:
  assumes "sorted p" "(s, e) \<in> set (row_pairs p)"
  shows "s \<le> e \<and> s \<in> set p \<and> e \<in> set p"
proof -
  from assms(2) obtain i where i: "i < length (butlast p)" "i < length (tl p)"
    "butlast p ! i = s" "tl p ! i = e"
    unfolding row_pairs_def in_set_zip by auto
  then have ip: "Suc i < length p" by simp
  have s: "s = p ! i" using i by (simp add: nth_butlast)
  have e: "e = p ! Suc i" using i by (simp add: nth_tl)
  have "p ! i \<le> p ! Suc i" using assms(1) ip by (intro sorted_nth_mono) auto
  then show ?thesis using s e ip by auto
qed

lemma sorted_le_last:
  assumes "sorted (p::int list)" "z \<in> set p"
  shows "z \<le> last p"
proof -
  from assms(2) obtain i where i: "i < length p" "p ! i = z" by (auto simp: in_set_conv_nth)
  then have ne: "p \<noteq> []" by auto
  have "p ! i \<le> p ! (length p - 1)" using assms(1) i(1) by (intro sorted_nth_mono) auto
  then show ?thesis using i(2) ne by (simp add: last_conv_nth)
qed

lemma sorted_hd_le:
  assumes "sorted (p::int list)" "z \<in> set p"
  shows "hd p \<le> z"
  using assms by (cases p) auto

lemma py_slice_same_tail:
  assumes "drop (nat y) d1 = drop (nat y) d" "length d1 = length d"
    "0 \<le> y" "y \<le> s" "s \<le> e" "nat e \<le> length d"
  shows "py_slice d1 s e = py_slice d s e"
proof -
  have ns: "nat s = (nat s - nat y) + nat y" using assms by simp
  have "drop (nat s) d1 = drop (nat s - nat y) (drop (nat y) d1)"
    by (subst ns) (simp only: drop_drop)
  also have "\<dots> = drop (nat s - nat y) (drop (nat y) d)" by (simp only: assms(1))
  also have "\<dots> = drop (nat s) d" by (subst (2) ns) (simp only: drop_drop)
  finally have "take (nat e - nat s) (drop (nat s) d1) = take (nat e - nat s) (drop (nat s) d)"
    by simp
  then show ?thesis using assms by (simp add: py_slice_in_range)
qed

lemma row_normalize_loop_closed:
  assumes "sorted p" "p \<noteq> []" "0 \<le> hd p" "nat (last p) \<le> length d"
  shows "row_normalize_loop (row_pairs p) d =
     take (nat (hd p)) d @
     concat (map (\<lambda>q. normalize_row (py_slice d (fst q) (snd q))) (row_pairs p)) @
     drop (nat (last p)) d"
  using assms
proof (induction p arbitrary: d rule: nondecreasing.induct)
  case (1 x y ys)
  let ?N = "normalize_row (py_slice d x y)"
  let ?d1 = "take (nat x) d @ ?N @ drop (nat y) d"
  from "1.prems" have xy: "0 \<le> x" "x \<le> y" and srt: "sorted (y # ys)" by auto
  have ylast: "y \<le> last (y # ys)"
    by (rule sorted_le_last[OF srt]) simp
  have ye: "nat y \<le> length d" using ylast "1.prems"(4) by simp
  have lsl: "length (py_slice d x y) = nat y - nat x"
    using xy ye by (simp add: py_slice_in_range)
  have lN: "length ?N = nat y - nat x" by (simp add: length_normalize_row lsl)
  have ld1: "length ?d1 = length d" using xy ye lN by simp
  have take1: "take (nat y) ?d1 = take (nat x) d @ ?N" using xy ye lN by simp
  have drop1: "drop (nat y) ?d1 = drop (nat y) d" using xy ye lN by simp
  have step: "row_normalize_loop (row_pairs (x # y # ys)) d = row_normalize_loop (row_pairs (y # ys)) ?d1"
    using loop_step[OF xy ye] by (simp add: row_pairs_Cons2 Let_def)
  have same: "normalize_row (py_slice ?d1 (fst q) (snd q)) = normalize_row (py_slice d (fst q) (snd q))"
    if "q \<in> set (row_pairs (y # ys))" for q
  proof -
    obtain s e where q: "q = (s, e)" by (cases q)
    from row_pairs_props[OF srt that[unfolded q]] have b: "s \<le> e" "s \<in> set (y # ys)" "e \<in> set (y # ys)"
      by auto
    have "y \<le> s" using srt b(2) by auto
    moreover have "e \<le> last (y # ys)" by (rule sorted_le_last[OF srt b(3)])
    ultimately have "py_slice ?d1 s e = py_slice d s e"
      using "1.prems"(4) b(1) xy by (intro py_slice_same_tail[OF drop1 ld1]) auto
    then show ?thesis by (simp add: q)
  qed
  have l1: "nat (last (y # ys)) \<le> length ?d1"
    unfolding ld1 using "1.prems"(4) by simp
  have y0: "0 \<le> hd (y # ys)" using xy by simp
  have "row_normalize_loop (row_pairs (y # ys)) ?d1 =
     take (nat (hd (y # ys))) ?d1 @
     concat (map (\<lambda>q. normalize_row (py_slice ?d1 (fst q) (snd q))) (row_pairs (y # ys))) @
     drop (nat (last (y # ys))) ?d1"
    by (rule "1.IH"[OF srt _ y0 l1]) simp
  then have "row_normalize_loop (row_pairs (y # ys)) ?d1 =
     take (nat y) ?d1 @
     concat (map (\<lambda>q. normalize_row (py_slice ?d1 (fst q) (snd q))) (row_pairs (y # ys))) @
     drop (nat (last (y # ys))) ?d1"
    by (simp only: list.sel)
  also have "map (\<lambda>q. normalize_row (py_slice ?d1 (fst q) (snd q))) (row_pairs (y # ys))
      = map (\<lambda>q. normalize_row (py_slice d (fst q) (snd q))) (row_pairs (y # ys))"
    by (rule map_cong[OF refl]) (rule same)
  also have "drop (nat (last (y # ys))) ?d1 = drop (nat (last (y # ys))) d"
  proof -
    have nl: "nat (last (y # ys)) = (nat (last (y # ys)) - nat y) + nat y"
      using ylast xy by simp
    have "drop (nat (last (y # ys))) ?d1 = drop (nat (last (y # ys)) - nat y) (drop (nat y) ?d1)"
      by (subst nl) (simp only: drop_drop)
    also have "\<dots> = drop (nat (last (y # ys)) - nat y) (drop (nat y) d)" by (simp only: drop1)
    also have "\<dots> = drop (nat (last (y # ys))) d" by (subst (2) nl) (simp only: drop_drop)
    finally show ?thesis .
  qed
  finally have fin: "row_normalize_loop (row_pairs (y # ys)) ?d1 =
     take (nat y) ?d1 @
     concat (map (\<lambda>q. normalize_row (py_slice d (fst q) (snd q))) (row_pairs (y # ys))) @
     drop (nat (last (y # ys))) d" .
  have lastx: "last (x # y # ys) = last (y # ys)" by simp
  have e: "row_normalize_loop (row_pairs (x # y # ys)) d =
     (take (nat x) d @ ?N) @
     concat (map (\<lambda>q. normalize_row (py_slice d (fst q) (snd q))) (row_pairs (y # ys))) @
     drop (nat (last (y # ys))) d"
    by (simp only: step fin take1)
  have rhs: "take (nat (hd (x # y # ys))) d @
     concat (map (\<lambda>q. normalize_row (py_slice d (fst q) (snd q))) (row_pairs (x # y # ys))) @
     drop (nat (last (x # y # ys))) d =
     (take (nat x) d @ ?N) @
     concat (map (\<lambda>q. normalize_row (py_slice d (fst q) (snd q))) (row_pairs (y # ys))) @
     drop (nat (last (y # ys))) d"
    by (simp only: lastx row_pairs_Cons2 list.sel list.map concat.simps fst_conv snd_conv
        append_assoc)
  show ?case unfolding rhs by (rule e)
qed (simp_all add: row_pairs_single)

lemma py_slice_nonneg:
  assumes "0 \<le> s" "0 \<le> e"
  shows "py_slice xs s e = take (nat e - nat s) (drop (nat s) xs)"
proof -
  have sb: "slice_bound (length xs) s = min (length xs) (nat s)"
    "slice_bound (length xs) e = min (length xs) (nat e)"
    using assms by (auto simp: slice_bound_def)
  show ?thesis
  proof (cases "nat s \<le> length xs")
    case True
    then show ?thesis
      by (cases "nat e \<le> length xs") (auto simp: py_slice_def sb Let_def min_def)
  next
    case False
    then show ?thesis by (simp add: py_slice_def sb Let_def)
  qed
qed

lemma rows_of_concat:
  assumes "sorted p" "p \<noteq> []" "0 \<le> hd p" "length A = nat (hd p)"
    "\<forall>q \<in> set (row_pairs p). length (f q) = nat (snd q) - nat (fst q)"
    "q \<in> set (row_pairs p)"
  shows "py_slice (A @ concat (map f (row_pairs p)) @ C) (fst q) (snd q) = f q"
  using assms
proof (induction p arbitrary: A rule: nondecreasing.induct)
  case (1 x y ys)
  from "1.prems" have xy: "0 \<le> x" "x \<le> y" and srt: "sorted (y # ys)" by auto
  have lf: "length (f (x, y)) = nat y - nat x"
    using "1.prems"(5) by (simp add: row_pairs_Cons2)
  have lA: "length A = nat x" using "1.prems"(4) by simp
  show ?case
  proof (cases "q = (x, y)")
    case True
    have "py_slice (A @ f (x, y) @ concat (map f (row_pairs (y # ys))) @ C) x y = f (x, y)"
      using xy lf lA by (simp add: py_slice_nonneg)
    then show ?thesis by (simp add: True row_pairs_Cons2)
  next
    case False
    with "1.prems"(6) have q: "q \<in> set (row_pairs (y # ys))" by (simp add: row_pairs_Cons2)
    have y0: "0 \<le> hd (y # ys)" using xy by simp
    have lA': "length (A @ f (x, y)) = nat (hd (y # ys))" using xy lf lA by simp
    have all: "\<forall>q \<in> set (row_pairs (y # ys)). length (f q) = nat (snd q) - nat (fst q)"
      using "1.prems"(5) by (simp add: row_pairs_Cons2)
    have "py_slice ((A @ f (x, y)) @ concat (map f (row_pairs (y # ys))) @ C) (fst q) (snd q) = f q"
      by (rule "1.IH"[OF srt _ y0 lA' all q]) simp
    then show ?thesis by (simp add: row_pairs_Cons2)
  qed
qed (simp_all add: row_pairs_single)

lemma row_pair_mem:
  assumes "Suc i < length p"
  shows "(p ! i, p ! Suc i) \<in> set (row_pairs p)"
proof -
  have "i < length (zip (butlast p) (tl p))" using assms by simp
  moreover have "zip (butlast p) (tl p) ! i = (p ! i, p ! Suc i)"
    using assms by (simp add: nth_butlast nth_tl)
  ultimately show ?thesis unfolding row_pairs_def by (metis nth_mem)
qed

lemma row_data_normalized:
  assumes "csr_inv g" "i < nrows g"
  shows "row_data (g\<lparr>data := row_normalize_loop (row_pairs (indptr g)) (data g)\<rparr>) i
       = normalize_row (row_data g i)"
proof -
  let ?p = "indptr g" and ?d = "data g"
  let ?f = "\<lambda>q. normalize_row (py_slice ?d (fst q) (snd q))"
  from assms(1) have ne: "?p \<noteq> []" and s: "sorted ?p" and h: "hd ?p = 0"
    and l: "last ?p = int (length ?d)"
    by (auto simp: csr_inv_def nondecreasing_sorted)
  have cf: "row_normalize_loop (row_pairs ?p) ?d = [] @ concat (map ?f (row_pairs ?p)) @ []"
    using row_normalize_loop_closed[OF s ne, of ?d] h l by simp
  have lens: "\<forall>q \<in> set (row_pairs ?p). length (?f q) = nat (snd q) - nat (fst q)"
  proof
    fix q assume q: "q \<in> set (row_pairs ?p)"
    obtain a b where ab: "q = (a, b)" by (cases q)
    from row_pairs_props[OF s q[unfolded ab]] have m: "a \<le> b" "a \<in> set ?p" "b \<in> set ?p" by auto
    from csr_inv_bounds[OF assms(1) m(2)] csr_inv_bounds[OF assms(1) m(3)]
    show "length (?f q) = nat (snd q) - nat (fst q)"
      by (auto simp add: ab length_normalize_row py_slice_nonneg)
  qed
  from assms(2) have i: "Suc i < length ?p" by (simp add: nrows_def)
  have "py_slice ([] @ concat (map ?f (row_pairs ?p)) @ []) (fst (?p ! i, ?p ! Suc i)) (snd (?p ! i, ?p ! Suc i))
      = ?f (?p ! i, ?p ! Suc i)"
    using h by (intro rows_of_concat[OF s ne _ _ lens row_pair_mem[OF i]]) simp_all
  then show ?thesis unfolding cf[symmetric] by (simp add: row_data_def)
qed


lemma np_sum_Fin: "np_sum (map Fin xs) = Fin (sum_list xs)"
  by (induction xs) (simp_all add: np_sum_def)







section \<open>Properties of the Weight Transform\<close>

lemma py_slice_map: "py_slice (map f xs) s e = map f (py_slice xs s e)"
  by (simp add: py_slice_def Let_def take_map drop_map)

lemma csr_inv_data_update:
  "csr_inv g \<Longrightarrow> length d = length (data g) \<Longrightarrow> csr_inv (g\<lparr>data := d\<rparr>)"
  by (simp add: csr_inv_def)

text \<open>What the weight transform builds from a distance graph.\<close>

lemma weights_from_distance_graph:
  assumes "generate_spatial_distance_graph lib w0 locations nbr_object num_neighbours PNone
             = (Inr dg, w)"
    and "dg < length (objs w)"
  shows "generate_spatial_weights_fixed_nbrs lib w0 locations num_neighbours nbr_object =
     (Inr (length (objs w), dg),
      w\<lparr>objs := objs w @
         [(objs w ! dg)\<lparr>data := row_normalize_loop (row_pairs (indptr (objs w ! dg)))
                                  (map (\<lambda>x. fl_div (Fin 1) x) (data (objs w ! dg)))\<rparr>]\<rparr>)"
  using assms
  by (simp add: generate_spatial_weights_fixed_nbrs_def alloc_def set_data_def row_normalize_def
      nth_append Let_def)

lemma knn_distance_graph:
  assumes "get_nbrs lib w0 locations nbr_object = (Inr nbrs, w1)"
    and "isinstance_int num_neighbours"
    and "kneighbors_graph lib nbrs num_neighbours = Inr dgr"
  shows "generate_spatial_distance_graph lib w0 locations nbr_object num_neighbours PNone
     = (Inr (length (objs w1)), w1\<lparr>objs := objs w1 @ [dgr], calls := calls w1 @ [KNeighborsGraph]\<rparr>)"
proof -
  have "num_neighbours \<noteq> PNone" using assms(2) by auto
  then show ?thesis
    using assms
    by (simp add: generate_spatial_distance_graph_def new_graph_def log_call_def alloc_def
        filter_by_radius_def)
qed

lemma weight_rows:
  assumes "csr_inv dgr" "i < nrows dgr"
  shows "row_data (dgr\<lparr>data := row_normalize_loop (row_pairs (indptr dgr))
                                  (map (\<lambda>x. fl_div (Fin 1) x) (data dgr))\<rparr>) i
       = normalize_row (map (\<lambda>x. fl_div (Fin 1) x) (row_data dgr i))"
proof -
  let ?r = "dgr\<lparr>data := map (\<lambda>x. fl_div (Fin 1) x) (data dgr)\<rparr>"
  have inv: "csr_inv ?r" using assms(1) by (intro csr_inv_data_update) simp_all
  have n: "i < nrows ?r" using assms(2) by (simp add: nrows_def)
  from row_data_normalized[OF inv n]
  show ?thesis by (simp add: row_data_def py_slice_map)
qed

lemma get_nbrs_objs: "get_nbrs lib w0 locations nbr_object = (r, w1) \<Longrightarrow> objs w1 = objs w0"
  by (auto simp: get_nbrs_def log_call_def split: option.splits)


lemma recip_cases:
  assumes "0 \<le> v"
  shows "fl_div (Fin 1) (Fin v) = (if v = 0 then PInf else Fin (1 / v))"
  by (simp add: inf_of_sign_def)



lemma weight_transform_result:
  assumes "get_nbrs lib w0 locations nbr_object = (Inr nbrs, w1)"
    and "isinstance_int num_neighbours"
    and "kneighbors_graph lib nbrs num_neighbours = Inr dgr"
  shows "generate_spatial_weights_fixed_nbrs lib w0 locations num_neighbours nbr_object =
     (Inr (Suc (length (objs w0)), length (objs w0)),
      \<lparr>objs = objs w0 @
         [dgr, dgr\<lparr>data := row_normalize_loop (row_pairs (indptr dgr))
                                  (map (\<lambda>x. fl_div (Fin 1) x) (data dgr))\<rparr>],
       calls = calls w1 @ [KNeighborsGraph]\<rparr>)"
proof -
  have o: "objs w1 = objs w0" by (rule get_nbrs_objs[OF assms(1)])
  let ?w = "w1\<lparr>objs := objs w1 @ [dgr], calls := calls w1 @ [KNeighborsGraph]\<rparr>"
  have d: "generate_spatial_distance_graph lib w0 locations nbr_object num_neighbours PNone
     = (Inr (length (objs w1)), ?w)"
    by (rule knn_distance_graph[OF assms])
  have l: "length (objs w1) < length (objs ?w)" by simp
  show ?thesis
    unfolding weights_from_distance_graph[OF d l] by (simp add: o)
qed

text \<open>
  C4. With an integer \<open>num_neighbours\<close>, whatever the locations, the weight transform
  returns the references of two different graphs: the distance graph is the graph the
  k-nearest query returned, as it was returned; the weight graph is what
  \<^verbatim>\<open>row_normalize\<close> makes of that graph with every entry \<open>d\<close> replaced by \<open>1/d\<close>, so
  that (on a distance graph satisfying the CSR invariant) each of its rows is the
  normalized row of reciprocals. A row of distances \<open>[1, 2]\<close> has the reciprocals
  \<open>[1, 1/2]\<close> and the weights \<open>[2/3, 1/3]\<close>. Nothing else in the store changes.
\<close>

theorem weight_transform_reciprocal_then_normalize:
  assumes "get_nbrs lib w0 locations nbr_object = (Inr nbrs, w1)"
    and "isinstance_int num_neighbours"
    and "kneighbors_graph lib nbrs num_neighbours = Inr dgr"
    and "csr_inv dgr"
  shows "\<exists>wg dg w.
     generate_spatial_weights_fixed_nbrs lib w0 locations num_neighbours nbr_object
       = (Inr (wg, dg), w) \<and>
     wg < length (objs w) \<and> dg < length (objs w) \<and> wg \<noteq> dg \<and>
     objs w ! dg = dgr \<and>
     (\<forall>a < length (objs w0). objs w ! a = objs w0 ! a) \<and>
     row_normalize [dgr\<lparr>data := map (\<lambda>d. fl_div (Fin 1) d) (data dgr)\<rparr>] 0 False
       = (0, [objs w ! wg]) \<and>
     (\<forall>i < nrows dgr.
        row_data (objs w ! wg) i = normalize_row (map (\<lambda>d. fl_div (Fin 1) d) (row_data dgr i)) \<and>
        (row_data dgr i = [Fin 1, Fin 2] \<longrightarrow>
           map (\<lambda>d. fl_div (Fin 1) d) (row_data dgr i) = [Fin 1, Fin (1 / 2)] \<and>
           row_data (objs w ! wg) i = [Fin (2 / 3), Fin (1 / 3)]))"
proof -
  let ?wt = "dgr\<lparr>data := row_normalize_loop (row_pairs (indptr dgr))
                                  (map (\<lambda>x. fl_div (Fin 1) x) (data dgr))\<rparr>"
  let ?w = "\<lparr>objs = objs w0 @ [dgr, ?wt], calls = calls w1 @ [KNeighborsGraph]\<rparr>"
  let ?wg = "Suc (length (objs w0))" and ?dg = "length (objs w0)"
  have r: "generate_spatial_weights_fixed_nbrs lib w0 locations num_neighbours nbr_object
       = (Inr (?wg, ?dg), ?w)"
    by (rule weight_transform_result[OF assms(1-3)])
  have wg: "objs ?w ! ?wg = ?wt" by (simp add: nth_append)
  have dg: "objs ?w ! ?dg = dgr" by (simp add: nth_append)
  have old: "\<forall>a < length (objs w0). objs ?w ! a = objs w0 ! a" by (simp add: nth_append)
  have rn: "row_normalize [dgr\<lparr>data := map (\<lambda>d. fl_div (Fin 1) d) (data dgr)\<rparr>] 0 False
       = (0, [objs ?w ! ?wg])"
    unfolding wg by (simp add: row_normalize_def set_data_def)
  have rows: "row_data (objs ?w ! ?wg) i = normalize_row (map (\<lambda>d. fl_div (Fin 1) d) (row_data dgr i)) \<and>
        (row_data dgr i = [Fin 1, Fin 2] \<longrightarrow>
           map (\<lambda>d. fl_div (Fin 1) d) (row_data dgr i) = [Fin 1, Fin (1 / 2)] \<and>
           row_data (objs ?w ! ?wg) i = [Fin (2 / 3), Fin (1 / 3)])"
    if i: "i < nrows dgr" for i
  proof -
    have a: "row_data (objs ?w ! ?wg) i = normalize_row (map (\<lambda>d. fl_div (Fin 1) d) (row_data dgr i))"
      unfolding wg by (rule weight_rows[OF assms(4) i])
    have b: "normalize_row (map (\<lambda>d. fl_div (Fin 1) d) [Fin 1, Fin 2]) = [Fin (2 / 3), Fin (1 / 3)]"
      by (simp add: normalize_row_def np_sum_def)
    show ?thesis using a b by simp
  qed
  have len: "?wg < length (objs ?w)" "?dg < length (objs ?w)" "?wg \<noteq> ?dg" by simp_all
  show ?thesis
    using r len dg old rn rows by blast
qed

theorem weight_transform_reciprocal_then_normalize_witness:
  "get_nbrs (const_lib \<lparr>data = [Fin 1, Fin 2, Fin 1, Fin 1, Fin 1, Fin 1, Fin 1, Fin 2],
                         indices = [1, 2, 0, 2, 1, 3, 2, 1], indptr = [0, 2, 4, 6, 8], ncols = 4\<rparr>)
      \<lparr>objs = [], calls = []\<rparr> () None = (Inr (), \<lparr>objs = [], calls = [Fit]\<rparr>) \<and>
   isinstance_int (PInt 2) \<and>
   csr_inv \<lparr>data = [Fin 1, Fin 2, Fin 1, Fin 1, Fin 1, Fin 1, Fin 1, Fin 2],
            indices = [1, 2, 0, 2, 1, 3, 2, 1], indptr = [0, 2, 4, 6, 8], ncols = 4\<rparr> \<and>
   (\<exists>wg dg w.
     generate_spatial_weights_fixed_nbrs
       (const_lib \<lparr>data = [Fin 1, Fin 2, Fin 1, Fin 1, Fin 1, Fin 1, Fin 1, Fin 2],
                    indices = [1, 2, 0, 2, 1, 3, 2, 1], indptr = [0, 2, 4, 6, 8], ncols = 4\<rparr>)
       \<lparr>objs = [], calls = []\<rparr> () (PInt 2) None = (Inr (wg, dg), w) \<and>
     row_data (objs w ! wg) 0 = [Fin (2 / 3), Fin (1 / 3)] \<and>
     data (objs w ! dg) = [Fin 1, Fin 2, Fin 1, Fin 1, Fin 1, Fin 1, Fin 1, Fin 2])"
proof -
  define G where "G = \<lparr>data = [Fin 1, Fin 2, Fin 1, Fin 1, Fin 1, Fin 1, Fin 1, Fin 2],
                         indices = [1, 2, 0, 2, 1, 3, 2, 1], indptr = [0, 2, 4, 6, 8], ncols = 4\<rparr>"
  have h1: "get_nbrs (const_lib G) \<lparr>objs = [], calls = []\<rparr> () None = (Inr (), \<lparr>objs = [], calls = [Fit]\<rparr>)"
    by (simp add: get_nbrs_def const_lib_def log_call_def)
  have h2: "isinstance_int (PInt 2)" by simp
  have h3: "kneighbors_graph (const_lib G) () (PInt 2) = Inr G" by (simp add: const_lib_def)
  have h4: "csr_inv G" by (simp add: G_def csr_inv_def)
  have r0: "row_data G 0 = [Fin 1, Fin 2]"
    by (simp add: G_def row_data_def py_slice_def slice_bound_def)
  have n: "0 < nrows G" by (simp add: G_def nrows_def)
  from weight_transform_reciprocal_then_normalize[OF h1 h2 h3 h4] obtain wg dg w where
    r: "generate_spatial_weights_fixed_nbrs (const_lib G) \<lparr>objs = [], calls = []\<rparr> () (PInt 2) None
       = (Inr (wg, dg), w)" and dg: "objs w ! dg = G"
    and rows: "\<forall>i < nrows G. row_data G i = [Fin 1, Fin 2] \<longrightarrow>
           row_data (objs w ! wg) i = [Fin (2 / 3), Fin (1 / 3)]"
    by blast
  from rows n r0 have w0: "row_data (objs w ! wg) 0 = [Fin (2 / 3), Fin (1 / 3)]" by blast
  have d: "data (objs w ! dg) = [Fin 1, Fin 2, Fin 1, Fin 1, Fin 1, Fin 1, Fin 1, Fin 2]"
    by (simp add: dg G_def)
  show ?thesis unfolding G_def[symmetric] using h1 h2 h4 r w0 d by blast
qed





section \<open>Properties of the Neighbor Graph Builder\<close>

lemma gsdg_not_int:
  assumes "num_neighbours \<noteq> PNone" "\<not> isinstance_int num_neighbours"
  shows "generate_spatial_distance_graph lib w0 locations nbr_object num_neighbours radius =
     (case nbr_object of
        Some n \<Rightarrow> (Inl AssertionError, w0)
      | None \<Rightarrow> (case fit lib locations of
                   Inl e \<Rightarrow> (Inl e, w0\<lparr>calls := calls w0 @ [Fit]\<rparr>)
                 | Inr n \<Rightarrow> (Inl AssertionError, w0\<lparr>calls := calls w0 @ [Fit]\<rparr>)))"
  using assms
  by (simp add: generate_spatial_distance_graph_def get_nbrs_def log_call_def
      split: option.splits sum.splits)

lemma gsdg_bad_radius:
  assumes "isinstance_int num_neighbours" "radius \<noteq> PNone" "numeric_value radius = None"
  shows "generate_spatial_distance_graph lib w0 locations nbr_object num_neighbours radius =
     (case get_nbrs lib w0 locations nbr_object of
        (Inl e, w) \<Rightarrow> (Inl e, w)
      | (Inr nbrs, w) \<Rightarrow>
         (case kneighbors_graph lib nbrs num_neighbours of
            Inl e \<Rightarrow> (Inl e, w\<lparr>calls := calls w @ [KNeighborsGraph]\<rparr>)
          | Inr g \<Rightarrow> (Inl AssertionError,
                      w\<lparr>objs := objs w @ [g], calls := calls w @ [KNeighborsGraph]\<rparr>)))"
proof -
  have "num_neighbours \<noteq> PNone" using assms(1) by auto
  then show ?thesis
    using assms
    by (simp add: generate_spatial_distance_graph_def new_graph_def log_call_def alloc_def
        filter_by_radius_def split: prod.splits sum.splits)
qed

text \<open>
  C7, as amended. When \<open>num_neighbours\<close> is set and is not an \<open>int\<close> (a \<open>bool\<close> counts
  as one), the builder fails and the store is as before; no graph query has run, but
  when no index was supplied the index has been built first, and the failure is the
  assertion's unless building the index failed. When \<open>num_neighbours\<close> is an \<open>int\<close> and
  \<open>radius\<close> is set and not numeric, the builder fails too, but only after the k-nearest
  query: when that query answers, its graph is in the store by the time the assertion
  on \<open>radius\<close> fails.
\<close>

theorem graph_builder_validation_order:
  "(num_neighbours \<noteq> PNone \<and> \<not> isinstance_int num_neighbours \<longrightarrow>
      (\<exists>e w. generate_spatial_distance_graph lib w0 locations nbr_object num_neighbours radius
                = (Inl e, w) \<and>
         objs w = objs w0 \<and> KNeighborsGraph \<notin> set (calls w) - set (calls w0) \<and>
         RadiusNeighborsGraph \<notin> set (calls w) - set (calls w0) \<and>
         (case nbr_object of
            Some n \<Rightarrow> e = AssertionError \<and> calls w = calls w0
          | None \<Rightarrow> calls w = calls w0 @ [Fit] \<and>
                    (case fit lib locations of Inl e' \<Rightarrow> e = e' | Inr n \<Rightarrow> e = AssertionError)))) \<and>
   (isinstance_int num_neighbours \<and> radius \<noteq> PNone \<and> numeric_value radius = None \<longrightarrow>
      (\<exists>e w. generate_spatial_distance_graph lib w0 locations nbr_object num_neighbours radius
                = (Inl e, w) \<and>
         (\<forall>nbrs w1 g. get_nbrs lib w0 locations nbr_object = (Inr nbrs, w1) \<and>
                       kneighbors_graph lib nbrs num_neighbours = Inr g \<longrightarrow>
            e = AssertionError \<and> objs w = objs w0 @ [g] \<and>
            calls w = calls w1 @ [KNeighborsGraph])))"
proof (intro conjI impI)
  assume a: "num_neighbours \<noteq> PNone \<and> \<not> isinstance_int num_neighbours"
  note r = gsdg_not_int[OF conjunct1[OF a] conjunct2[OF a]]
  show "\<exists>e w. generate_spatial_distance_graph lib w0 locations nbr_object num_neighbours radius
                = (Inl e, w) \<and>
         objs w = objs w0 \<and> KNeighborsGraph \<notin> set (calls w) - set (calls w0) \<and>
         RadiusNeighborsGraph \<notin> set (calls w) - set (calls w0) \<and>
         (case nbr_object of
            Some n \<Rightarrow> e = AssertionError \<and> calls w = calls w0
          | None \<Rightarrow> calls w = calls w0 @ [Fit] \<and>
                    (case fit lib locations of Inl e' \<Rightarrow> e = e' | Inr n \<Rightarrow> e = AssertionError))"
  proof (cases nbr_object)
    case (Some n)
    show ?thesis
      by (rule exI[of _ AssertionError], rule exI[of _ w0]) (simp add: r Some)
  next
    case None
    show ?thesis
    proof (cases "fit lib locations")
      case (Inl e')
      show ?thesis
        by (rule exI[of _ e'], rule exI[of _ "w0\<lparr>calls := calls w0 @ [Fit]\<rparr>"])
           (simp add: r None Inl)
    next
      case (Inr n)
      show ?thesis
        by (rule exI[of _ AssertionError], rule exI[of _ "w0\<lparr>calls := calls w0 @ [Fit]\<rparr>"])
           (simp add: r None Inr)
    qed
  qed
next
  assume a: "isinstance_int num_neighbours \<and> radius \<noteq> PNone \<and> numeric_value radius = None"
  then have b: "isinstance_int num_neighbours" "radius \<noteq> PNone" "numeric_value radius = None"
    by auto
  note r = gsdg_bad_radius[OF b]
  obtain res w1 where g: "get_nbrs lib w0 locations nbr_object = (res, w1)"
    by (cases "get_nbrs lib w0 locations nbr_object")
  have o: "objs w1 = objs w0" by (rule get_nbrs_objs[OF g])
  show "\<exists>e w. generate_spatial_distance_graph lib w0 locations nbr_object num_neighbours radius
                = (Inl e, w) \<and>
         (\<forall>nbrs w1 g. get_nbrs lib w0 locations nbr_object = (Inr nbrs, w1) \<and>
                       kneighbors_graph lib nbrs num_neighbours = Inr g \<longrightarrow>
            e = AssertionError \<and> objs w = objs w0 @ [g] \<and>
            calls w = calls w1 @ [KNeighborsGraph])"
  proof (cases res)
    case (Inl e)
    show ?thesis
      by (rule exI[of _ e], rule exI[of _ w1]) (simp add: r g Inl)
  next
    case (Inr nbrs)
    show ?thesis
    proof (cases "kneighbors_graph lib nbrs num_neighbours")
      case (Inl e)
      show ?thesis
        by (rule exI[of _ e], rule exI[of _ "w1\<lparr>calls := calls w1 @ [KNeighborsGraph]\<rparr>"])
           (simp add: r g Inr Inl)
    next
      case (Inr gr)
      show ?thesis
        by (rule exI[of _ AssertionError],
            rule exI[of _ "w1\<lparr>objs := objs w1 @ [gr], calls := calls w1 @ [KNeighborsGraph]\<rparr>"])
           (simp add: r g \<open>res = Inr nbrs\<close> Inr o)
    qed
  qed
qed

theorem graph_builder_validation_order_witness:
  "(PFloat (Fin 2) \<noteq> PNone \<and> \<not> isinstance_int (PFloat (Fin 2))) \<and>
   generate_spatial_distance_graph (const_lib \<lparr>data = [], indices = [], indptr = [0], ncols = 0\<rparr>)
     \<lparr>objs = [], calls = []\<rparr> () None (PFloat (Fin 2)) PNone
     = (Inl AssertionError, \<lparr>objs = [], calls = [Fit]\<rparr>) \<and>
   (isinstance_int (PInt 2) \<and> PStr ''far'' \<noteq> PNone \<and> numeric_value (PStr ''far'') = None) \<and>
   (\<exists>w. generate_spatial_distance_graph (const_lib \<lparr>data = [], indices = [], indptr = [0], ncols = 0\<rparr>)
     \<lparr>objs = [], calls = []\<rparr> () None (PInt 2) (PStr ''far'') = (Inl AssertionError, w) \<and>
     objs w = [\<lparr>data = [], indices = [], indptr = [0], ncols = 0\<rparr>])"
proof -
  define G where "G = \<lparr>data = [], indices = [], indptr = [0::int], ncols = 0::nat\<rparr>"
  define w0 where "w0 = \<lparr>objs = [], calls = []\<rparr>"
  have h1: "PFloat (Fin 2) \<noteq> PNone \<and> \<not> isinstance_int (PFloat (Fin 2))" by simp
  have h2: "isinstance_int (PInt 2) \<and> PStr ''far'' \<noteq> PNone \<and> numeric_value (PStr ''far'') = None"
    by simp
  have f: "fit (const_lib G) () = Inr ()" by (simp add: const_lib_def)
  have gn: "get_nbrs (const_lib G) w0 () None = (Inr (), \<lparr>objs = [], calls = [Fit]\<rparr>)"
    by (simp add: get_nbrs_def const_lib_def log_call_def w0_def)
  have k: "kneighbors_graph (const_lib G) () (PInt 2) = Inr G" by (simp add: const_lib_def)
  from graph_builder_validation_order[where num_neighbours = "PFloat (Fin 2)" and lib = "const_lib G"
      and ?w0.0 = w0 and locations = "()" and nbr_object = None and radius = PNone] h1
  obtain e w where 1: "generate_spatial_distance_graph (const_lib G) w0 () None (PFloat (Fin 2)) PNone
       = (Inl e, w)" "objs w = objs w0" "calls w = calls w0 @ [Fit]"
       "(case fit (const_lib G) () of Inl e' \<Rightarrow> e = e' | Inr n \<Rightarrow> e = AssertionError)"
    by auto
  from 1(4) f have e: "e = AssertionError" by simp
  from 1(2,3) have w: "w = \<lparr>objs = [], calls = [Fit]\<rparr>" by (cases w) (simp add: w0_def)
  from graph_builder_validation_order[where num_neighbours = "PInt 2" and lib = "const_lib G"
      and ?w0.0 = w0 and locations = "()" and nbr_object = None and radius = "PStr ''far''"] h2
  obtain e2 w2 where 2: "generate_spatial_distance_graph (const_lib G) w0 () None (PInt 2) (PStr ''far'')
       = (Inl e2, w2)"
     "\<forall>nbrs w1 g. get_nbrs (const_lib G) w0 () None = (Inr nbrs, w1) \<and>
                       kneighbors_graph (const_lib G) nbrs (PInt 2) = Inr g \<longrightarrow>
            e2 = AssertionError \<and> objs w2 = objs w0 @ [g] \<and>
            calls w2 = calls w1 @ [KNeighborsGraph]"
    by blast
  from 2(2) gn k have 3: "e2 = AssertionError" "objs w2 = objs w0 @ [G]" by blast+
  show ?thesis
    unfolding G_def[symmetric] w0_def[symmetric]
    using h1 h2 1(1) e w 2(1) 3 by (auto simp: w0_def)
qed

text \<open>
  The claim as stated, that the arguments are validated before any work is done, fails:
  with two neighbours asked for and a radius that is a string, the index is built and
  the k-nearest query runs, and its graph is stored, before the assertion on the radius
  fails.
\<close>

theorem graph_builder_validation_counterexample:
  "generate_spatial_distance_graph
     (const_lib \<lparr>data = [Fin 1, Fin 1], indices = [1, 0], indptr = [0, 1, 2], ncols = 2\<rparr>)
     \<lparr>objs = [], calls = []\<rparr> () None (PInt 1) (PStr ''far'')
   = (Inl AssertionError,
      \<lparr>objs = [\<lparr>data = [Fin 1, Fin 1], indices = [1, 0], indptr = [0, 1, 2], ncols = 2\<rparr>],
        calls = [Fit, KNeighborsGraph]\<rparr>)"
  by (simp add: generate_spatial_distance_graph_def get_nbrs_def const_lib_def log_call_def
      new_graph_def alloc_def filter_by_radius_def)

section \<open>Properties of the Feature Fusion\<close>

lemma mat_nrows_scale: "mat_nrows (scale_matrix m s) = mat_nrows m"
  by (cases m) (simp_all add: nrows_def)

lemma mat_ncols_scale: "mat_ncols (scale_matrix m s) = mat_ncols m"
  by (cases m) simp_all

lemma length_imul: "length (imul h a s) = length h"
  by (simp add: imul_def)

lemma nth_imul: "a < length h \<Longrightarrow> imul h a s ! b = (if b = a then scale_matrix (h ! a) s else h ! b)"
  by (simp add: imul_def nth_list_update)

lemma length_csr_rows: "length (csr_rows m) = nrows m"
  by (simp add: csr_rows_def)

lemma length_todense: "length (todense m) = nrows m"
  by (simp add: todense_def length_csr_rows)

lemma concatenate_features_shape:
  "concatenate_features A B =
     (if mat_nrows A \<noteq> mat_nrows B then Inl ValueError
      else Inr (case (A, B) of
                  (Sparse a, Sparse b) \<Rightarrow>
                    FusedSparse (ncols a + ncols b)
                      (map2 (\<lambda>ra rb. ra @ map (\<lambda>e. (fst e + int (ncols a), snd e)) rb)
                         (csr_rows a) (csr_rows b))
                | _ \<Rightarrow> FusedDense (mat_ncols A + mat_ncols B) (map2 (@) (dense_of A) (dense_of B))))"
  by (cases A; cases B) (simp_all add: np_concatenate_def sparse_hstack_def length_todense)

lemma concatenate_features_ok:
  assumes "mat_nrows A = mat_nrows B"
  obtains M where "concatenate_features A B = Inr M" "fused_nrows M = mat_nrows A"
    "fused_ncols M = mat_ncols A + mat_ncols B"
  using assms
  by (cases A; cases B)
     (simp_all add: np_concatenate_def sparse_hstack_def length_todense length_csr_rows)

lemma concatenate_features_mismatch:
  "mat_nrows A \<noteq> mat_nrows B \<Longrightarrow> concatenate_features A B = Inl ValueError"
  by (simp add: concatenate_features_shape)

text \<open>
  C8, as amended. \<^verbatim>\<open>weighted_concatenate\<close> validates nothing. Whatever the mixing
  coefficient is, inside \<open>[0, 1]\<close> or not, both matrices are first scaled in place; then
  matrices with the same number of rows give a result and no error, and matrices with
  different numbers of rows make the concatenation raise its shape error, with both
  already scaled.
\<close>

theorem weighted_concatenate_no_validation:
  "(mat_nrows (h0 ! a) = mat_nrows (h0 ! b) \<and> a < length h0 \<and> b < length h0 \<longrightarrow>
      (\<exists>M. weighted_concatenate h0 a b nc
              = (Inr M, imul (imul h0 a (fl_sqrt (fl_sub (Fin 1) nc))) b (fl_sqrt nc)))) \<and>
   (mat_nrows (h0 ! a) \<noteq> mat_nrows (h0 ! b) \<and> a < length h0 \<and> b < length h0 \<longrightarrow>
      weighted_concatenate h0 a b nc
        = (Inl ValueError, imul (imul h0 a (fl_sqrt (fl_sub (Fin 1) nc))) b (fl_sqrt nc)))"
proof -
  let ?s1 = "fl_sqrt (fl_sub (Fin 1) nc)" and ?s2 = "fl_sqrt nc"
  let ?h2 = "imul (imul h0 a ?s1) b ?s2"
  have r: "weighted_concatenate h0 a b nc = (concatenate_features (?h2 ! a) (?h2 ! b), ?h2)"
    by (simp add: weighted_concatenate_def Let_def)
  have n: "mat_nrows (?h2 ! a) = mat_nrows (h0 ! a) \<and> mat_nrows (?h2 ! b) = mat_nrows (h0 ! b)"
    if "a < length h0" "b < length h0"
    using that by (simp add: nth_imul length_imul mat_nrows_scale)
  show ?thesis
  proof (intro conjI impI)
    assume h: "mat_nrows (h0 ! a) = mat_nrows (h0 ! b) \<and> a < length h0 \<and> b < length h0"
    with n have "mat_nrows (?h2 ! a) = mat_nrows (?h2 ! b)" by simp
    then obtain M where "concatenate_features (?h2 ! a) (?h2 ! b) = Inr M"
      by (rule concatenate_features_ok)
    then show "\<exists>M. weighted_concatenate h0 a b nc = (Inr M, ?h2)" by (simp add: r)
  next
    assume h: "mat_nrows (h0 ! a) \<noteq> mat_nrows (h0 ! b) \<and> a < length h0 \<and> b < length h0"
    with n have "mat_nrows (?h2 ! a) \<noteq> mat_nrows (?h2 ! b)" by simp
    then show "weighted_concatenate h0 a b nc = (Inl ValueError, ?h2)"
      by (simp add: r concatenate_features_mismatch)
  qed
qed

theorem weighted_concatenate_no_validation_witness:
  "(mat_nrows ([Dense 1 [[Fin 3]], Dense 1 [[Fin 5]]] ! 0)
      = mat_nrows ([Dense 1 [[Fin 3]], Dense 1 [[Fin 5]]] ! 1) \<and>
    (0::nat) < length [Dense 1 [[Fin 3]], Dense 1 [[Fin 5]]] \<and>
    (1::nat) < length [Dense 1 [[Fin 3]], Dense 1 [[Fin 5]]]) \<and>
   (\<exists>M. weighted_concatenate [Dense 1 [[Fin 3]], Dense 1 [[Fin 5]]] 0 1 (Fin (- 1))
      = (Inr M, [Dense 1 [[Fin (3 * sqrt 2)]], Dense 1 [[NaN]]])) \<and>
   (mat_nrows ([Dense 1 [[Fin 3]], Dense 1 [[Fin 5], [Fin 6]]] ! 0)
      \<noteq> mat_nrows ([Dense 1 [[Fin 3]], Dense 1 [[Fin 5], [Fin 6]]] ! 1) \<and>
    (0::nat) < length [Dense 1 [[Fin 3]], Dense 1 [[Fin 5], [Fin 6]]] \<and>
    (1::nat) < length [Dense 1 [[Fin 3]], Dense 1 [[Fin 5], [Fin 6]]]) \<and>
   weighted_concatenate [Dense 1 [[Fin 3]], Dense 1 [[Fin 5], [Fin 6]]] 0 1 (Fin 0)
      = (Inl ValueError, [Dense 1 [[Fin 3]], Dense 1 [[Fin 0], [Fin 0]]])"
proof -
  have h1: "mat_nrows ([Dense 1 [[Fin 3]], Dense 1 [[Fin 5]]] ! 0)
      = mat_nrows ([Dense 1 [[Fin 3]], Dense 1 [[Fin 5]]] ! 1) \<and>
    (0::nat) < length [Dense 1 [[Fin 3]], Dense 1 [[Fin 5]]] \<and>
    (1::nat) < length [Dense 1 [[Fin 3]], Dense 1 [[Fin 5]]]" by simp
  have h2: "mat_nrows ([Dense 1 [[Fin 3]], Dense 1 [[Fin 5], [Fin 6]]] ! 0)
      \<noteq> mat_nrows ([Dense 1 [[Fin 3]], Dense 1 [[Fin 5], [Fin 6]]] ! 1) \<and>
    (0::nat) < length [Dense 1 [[Fin 3]], Dense 1 [[Fin 5], [Fin 6]]] \<and>
    (1::nat) < length [Dense 1 [[Fin 3]], Dense 1 [[Fin 5], [Fin 6]]]" by simp
  have s1: "imul (imul [Dense 1 [[Fin 3]], Dense 1 [[Fin 5]]] 0 (fl_sqrt (fl_sub (Fin 1) (Fin (- 1)))))
              1 (fl_sqrt (Fin (- 1))) = [Dense 1 [[Fin (3 * sqrt 2)]], Dense 1 [[NaN]]]"
    by (simp add: imul_def fl_sub_def)
  have s2: "imul (imul [Dense 1 [[Fin 3]], Dense 1 [[Fin 5], [Fin 6]]] 0 (fl_sqrt (fl_sub (Fin 1) (Fin 0))))
              1 (fl_sqrt (Fin 0)) = [Dense 1 [[Fin 3]], Dense 1 [[Fin 0], [Fin 0]]]"
    by (simp add: imul_def fl_sub_def)
  from weighted_concatenate_no_validation[where ?h0.0 = "[Dense 1 [[Fin 3]], Dense 1 [[Fin 5]]]"
      and a = 0 and b = 1 and nc = "Fin (- 1)"] h1
  have a: "\<exists>M. weighted_concatenate [Dense 1 [[Fin 3]], Dense 1 [[Fin 5]]] 0 1 (Fin (- 1))
      = (Inr M, [Dense 1 [[Fin (3 * sqrt 2)]], Dense 1 [[NaN]]])"
    unfolding s1 by blast
  from weighted_concatenate_no_validation[where ?h0.0 = "[Dense 1 [[Fin 3]], Dense 1 [[Fin 5], [Fin 6]]]"
      and a = 0 and b = 1 and nc = "Fin 0"] h2
  have b: "weighted_concatenate [Dense 1 [[Fin 3]], Dense 1 [[Fin 5], [Fin 6]]] 0 1 (Fin 0)
      = (Inl ValueError, [Dense 1 [[Fin 3]], Dense 1 [[Fin 0], [Fin 0]]])"
    unfolding s2 by blast
  show ?thesis using h1 h2 a b by blast
qed

text \<open>
  The claim as stated fails: with the mixing coefficient 4, outside \<open>[0, 1]\<close>, no error
  is raised; the self features are scaled by the square root of -3, which is NaN, and
  the result is returned.
\<close>

theorem weighted_concatenate_out_of_range_counterexample:
  "weighted_concatenate [Dense 1 [[Fin 3]], Dense 1 [[Fin 5]]] 0 1 (Fin 4)
     = (Inr (FusedDense 2 [[NaN, Fin 10]]), [Dense 1 [[NaN]], Dense 1 [[Fin 10]]])"
  by (simp add: weighted_concatenate_def imul_def fl_sub_def np_concatenate_def)

section \<open>The blocks of the fused matrix\<close>

lemma set_py_slice: "set (py_slice xs s e) \<subseteq> set xs"
  unfolding py_slice_def Let_def by (meson set_take_subset set_drop_subset subset_trans)

lemma csr_rows_entries:
  assumes "es \<in> set (csr_rows m)" "e \<in> set es"
  shows "fst e \<in> set (indices m) \<and> snd e \<in> set (data m)"
proof -
  from assms(1) obtain i where es: "es = zip (row_indices m i) (row_data m i)"
    by (auto simp: csr_rows_def)
  from assms(2) have "fst e \<in> set (row_indices m i)" "snd e \<in> set (row_data m i)"
    unfolding es by (auto dest: set_zip_leftD set_zip_rightD simp: prod_eq_iff[of e] intro: set_zip_leftD[of "fst e" "snd e"] set_zip_rightD[of "fst e" "snd e"])
  then show ?thesis
    unfolding row_indices_def row_data_def
    using set_py_slice[of "indices m"] set_py_slice[of "data m"] by blast
qed

lemma length_dense_row: "length (dense_row c es) = c"
  by (simp add: dense_row_def)

lemma dense_row_append_shift:
  assumes "\<forall>e \<in> set ra. 0 \<le> fst e \<and> fst e < int ca" "\<forall>e \<in> set rb. 0 \<le> fst e"
  shows "dense_row (ca + cb) (ra @ map (\<lambda>e. (fst e + int ca, snd e)) rb)
       = dense_row ca ra @ dense_row cb rb"
proof -
  let ?sh = "map (\<lambda>e. (fst e + int ca, snd e)) rb"
  let ?g = "\<lambda>j. np_sum (map snd (filter (\<lambda>e. fst e = int j) (ra @ ?sh)))"
  have split: "[0..<ca + cb] = [0..<ca] @ map (\<lambda>j. j + ca) [0..<cb]"
    using upt_add_eq_append[of 0 ca cb] map_add_upt[of ca cb] by (simp add: add.commute)
  have left: "map ?g [0..<ca] = dense_row ca ra"
    unfolding dense_row_def
  proof (rule map_cong[OF refl])
    fix j assume "j \<in> set [0..<ca]"
    then have j: "j < ca" by simp
    have "filter (\<lambda>e. fst e = int j) ?sh = []"
      using assms(2) j by (auto simp: filter_empty_conv)
    then show "?g j = np_sum (map snd (filter (\<lambda>e. fst e = int j) ra))" by simp
  qed
  have right: "map ?g (map (\<lambda>j. j + ca) [0..<cb]) = dense_row cb rb"
    unfolding dense_row_def map_map
  proof (rule map_cong[OF refl])
    fix j assume "j \<in> set [0..<cb]"
    have a: "filter (\<lambda>e. fst e = int j + int ca) ra = []"
      using assms(1) by (auto simp: filter_empty_conv)
    have b: "map snd (filter (\<lambda>e. fst e = int j + int ca) ?sh) = map snd (filter (\<lambda>e. fst e = int j) rb)"
      by (induction rb) auto
    show "(?g \<circ> (\<lambda>j. j + ca)) j = np_sum (map snd (filter (\<lambda>e. fst e = int j) rb))"
      by (simp add: a b)
  qed
  have "dense_row (ca + cb) (ra @ ?sh) = map ?g [0..<ca + cb]" by (simp add: dense_row_def)
  also have "\<dots> = map ?g [0..<ca] @ map ?g (map (\<lambda>j. j + ca) [0..<cb])"
    by (simp only: split map_append)
  finally show ?thesis by (simp only: left right)
qed

lemma map_dense_row_hstack:
  assumes "\<forall>ra \<in> set xs. \<forall>e \<in> set ra. 0 \<le> fst e \<and> fst e < int ca"
    "\<forall>rb \<in> set ys. \<forall>e \<in> set rb. 0 \<le> fst e"
  shows "map (dense_row (ca + cb)) (map2 (\<lambda>ra rb. ra @ map (\<lambda>e. (fst e + int ca, snd e)) rb) xs ys)
       = map2 (@) (map (dense_row ca) xs) (map (dense_row cb) ys)"
  using assms
proof (induction xs arbitrary: ys)
  case Nil
  then show ?case by simp
next
  case (Cons x xs)
  show ?case
  proof (cases ys)
    case Nil
    then show ?thesis by simp
  next
    case (Cons y ys')
    have "dense_row (ca + cb) (x @ map (\<lambda>e. (fst e + int ca, snd e)) y) = dense_row ca x @ dense_row cb y"
      using Cons.prems Cons by (intro dense_row_append_shift) auto
    moreover have "map (dense_row (ca + cb)) (map2 (\<lambda>ra rb. ra @ map (\<lambda>e. (fst e + int ca, snd e)) rb) xs ys')
       = map2 (@) (map (dense_row ca) xs) (map (dense_row cb) ys')"
      using Cons.prems Cons by (intro Cons.IH) auto
    ultimately show ?thesis by (simp add: Cons)
  qed
qed

lemma wf_sparse_entries:
  assumes "wf_matrix (Sparse m)" "es \<in> set (csr_rows m)" "e \<in> set es"
  shows "0 \<le> fst e \<and> fst e < int (ncols m)"
  using assms csr_rows_entries[OF assms(2,3)] by auto

lemma fused_dense_concatenate:
  assumes "wf_matrix A" "wf_matrix B" "concatenate_features A B = Inr M"
  shows "fused_dense M = map2 (@) (dense_of A) (dense_of B)"
proof (cases A)
  case (Dense ca a)
  with assms(3) show ?thesis
    by (cases B) (auto simp: np_concatenate_def split: if_splits)
next
  case (Sparse a)
  show ?thesis
  proof (cases B)
    case (Dense cb b)
    with assms(3) Sparse show ?thesis by (auto simp: np_concatenate_def split: if_splits)
  next
    case Sp: (Sparse b)
    from assms(3) have M: "M = FusedSparse (ncols a + ncols b)
                  (map2 (\<lambda>ra rb. ra @ map (\<lambda>e. (fst e + int (ncols a), snd e)) rb)
                     (csr_rows a) (csr_rows b))"
      unfolding Sparse Sp by (auto simp: sparse_hstack_def split: if_splits)
    have 1: "\<forall>ra \<in> set (csr_rows a). \<forall>e \<in> set ra. 0 \<le> fst e \<and> fst e < int (ncols a)"
      using wf_sparse_entries[of a] assms(1) unfolding Sparse by blast
    have 2: "\<forall>rb \<in> set (csr_rows b). \<forall>e \<in> set rb. 0 \<le> fst e"
      using wf_sparse_entries[of b] assms(2) unfolding Sp by blast
    show ?thesis
      unfolding M Sparse Sp
      by (simp only: fused_dense.simps dense_of.simps todense_def map_dense_row_hstack[OF 1 2])
  qed
qed

lemma dense_of_row_length:
  assumes "wf_matrix A" "r \<in> set (dense_of A)"
  shows "length r = mat_ncols A"
  using assms by (cases A) (auto simp: todense_def length_dense_row)

lemma length_dense_of: "length (dense_of A) = mat_nrows A"
  by (cases A) (simp_all add: length_todense)

lemma map_take_map2_append:
  assumes "\<forall>r \<in> set xs. length r = n" "length xs = length ys"
  shows "map (take n) (map2 (@) xs ys) = xs \<and> map (drop n) (map2 (@) xs ys) = ys"
  using assms(2,1) by (induction xs ys rule: list_induct2) auto

lemma fl_mul_one: "fl_mul x (Fin 1) = x"
  by (cases x) (simp_all add: inf_of_sign_def)

lemma fl_mul_zero: "is_finite x \<Longrightarrow> fl_mul x (Fin 0) = Fin 0"
  by (cases x) simp_all

lemma scale_matrix_one: "scale_matrix m (Fin 1) = m"
  by (cases m) (simp_all add: fl_mul_one)

lemma wf_scale_matrix: "wf_matrix m \<Longrightarrow> wf_matrix (scale_matrix m s)"
  by (cases m) (auto simp: csr_inv_def)

lemma all_eq_replicate: "\<forall>y \<in> set xs. y = x \<Longrightarrow> xs = replicate (length xs) x"
  by (simp add: replicate_length_same)

lemma np_sum_zeros: "\<forall>x \<in> set xs. x = Fin 0 \<Longrightarrow> np_sum xs = Fin 0"
  by (induction xs) (simp_all add: np_sum_def)

lemma dense_row_zeros:
  assumes "\<forall>e \<in> set es. snd e = Fin 0"
  shows "dense_row c es = replicate c (Fin 0)"
proof -
  have "np_sum (map snd (filter (\<lambda>e. fst e = int j) es)) = Fin 0" for j
    using assms by (intro np_sum_zeros) auto
  then have "dense_row c es = map (\<lambda>j. Fin 0) [0..<c]" by (simp add: dense_row_def)
  then show ?thesis by (simp add: map_replicate_const)
qed

lemma scale_zero_dense_of:
  assumes "wf_matrix m" "\<forall>x \<in> set (stored_values m). is_finite x"
  shows "dense_of (scale_matrix m (Fin 0)) = replicate (mat_nrows m) (replicate (mat_ncols m) (Fin 0))"
proof -
  let ?m = "scale_matrix m (Fin 0)"
  have "\<forall>r \<in> set (dense_of ?m). r = replicate (mat_ncols m) (Fin 0)"
  proof (cases m)
    case (Dense c rows)
    show ?thesis
    proof
      fix r assume "r \<in> set (dense_of ?m)"
      then obtain r0 where r0: "r0 \<in> set rows" "r = map (\<lambda>x. fl_mul x (Fin 0)) r0"
        unfolding Dense by auto
      from assms(2) r0(1) have "\<forall>x \<in> set r0. is_finite x" unfolding Dense by auto
      then have "\<forall>y \<in> set r. y = Fin 0" unfolding r0(2) by (auto simp: fl_mul_zero)
      then have "r = replicate (length r) (Fin 0)" by (rule all_eq_replicate)
      moreover have "length r = c" using assms(1) r0 unfolding Dense by simp
      ultimately show "r = replicate (mat_ncols m) (Fin 0)" unfolding Dense by simp
    qed
  next
    case (Sparse a)
    let ?a = "a\<lparr>data := map (\<lambda>x. fl_mul x (Fin 0)) (data a)\<rparr>"
    have z: "\<forall>x \<in> set (data ?a). x = Fin 0"
      using assms(2) unfolding Sparse by (auto simp: fl_mul_zero)
    show ?thesis
    proof
      fix r assume "r \<in> set (dense_of ?m)"
      then obtain es where es: "es \<in> set (csr_rows ?a)" "r = dense_row (ncols a) es"
        unfolding Sparse by (auto simp: todense_def)
      have "\<forall>e \<in> set es. snd e = Fin 0"
        using csr_rows_entries[OF es(1)] z by blast
      then show "r = replicate (mat_ncols m) (Fin 0)"
        unfolding es(2) Sparse by (simp add: dense_row_zeros)
    qed
  qed
  then have "dense_of ?m = replicate (length (dense_of ?m)) (replicate (mat_ncols m) (Fin 0))"
    by (rule all_eq_replicate)
  then show ?thesis by (simp add: length_dense_of mat_nrows_scale)
qed

lemma weighted_concatenate_distinct:
  assumes "a < length h0" "b < length h0" "a \<noteq> b"
  shows "weighted_concatenate h0 a b nc =
     (concatenate_features (scale_matrix (h0 ! a) (fl_sqrt (fl_sub (Fin 1) nc)))
                           (scale_matrix (h0 ! b) (fl_sqrt nc)),
      imul (imul h0 a (fl_sqrt (fl_sub (Fin 1) nc))) b (fl_sqrt nc))"
  using assms by (simp add: weighted_concatenate_def Let_def nth_imul length_imul)

text \<open>
  C6, as amended. For two different matrix objects with the same number of rows \<open>N\<close>,
  both well formed, and a mixing coefficient in \<open>[0, 1]\<close>, \<^verbatim>\<open>weighted_concatenate\<close>
  returns a matrix with \<open>N\<close> rows and as many columns as the two inputs together. At
  coefficient 0 its first column block is the self-feature matrix as it was before the
  call, and its second block is all zeros when the neighbour features are finite; at
  coefficient 1 the first block is all zeros when the self features are finite, and
  the second block is the neighbour-feature matrix as it was.
\<close>

theorem weighted_concatenate_blocks:
  assumes "a < length h0" and "b < length h0" and "a \<noteq> b"
    and "wf_matrix (h0 ! a)" and "wf_matrix (h0 ! b)"
    and "mat_nrows (h0 ! a) = mat_nrows (h0 ! b)"
    and "0 \<le> v" and "v \<le> 1"
  shows "\<exists>M h. weighted_concatenate h0 a b (Fin v) = (Inr M, h) \<and>
     fused_nrows M = mat_nrows (h0 ! a) \<and>
     fused_ncols M = mat_ncols (h0 ! a) + mat_ncols (h0 ! b) \<and>
     (v = 0 \<longrightarrow>
        map (take (mat_ncols (h0 ! a))) (fused_dense M) = dense_of (h0 ! a) \<and>
        ((\<forall>x \<in> set (stored_values (h0 ! b)). is_finite x) \<longrightarrow>
           map (drop (mat_ncols (h0 ! a))) (fused_dense M)
             = replicate (mat_nrows (h0 ! b)) (replicate (mat_ncols (h0 ! b)) (Fin 0)))) \<and>
     (v = 1 \<longrightarrow>
        map (drop (mat_ncols (h0 ! a))) (fused_dense M) = dense_of (h0 ! b) \<and>
        ((\<forall>x \<in> set (stored_values (h0 ! a)). is_finite x) \<longrightarrow>
           map (take (mat_ncols (h0 ! a))) (fused_dense M)
             = replicate (mat_nrows (h0 ! a)) (replicate (mat_ncols (h0 ! a)) (Fin 0))))"
proof -
  let ?s1 = "fl_sqrt (fl_sub (Fin 1) (Fin v))" and ?s2 = "fl_sqrt (Fin v)"
  let ?A = "scale_matrix (h0 ! a) ?s1" and ?B = "scale_matrix (h0 ! b) ?s2"
  let ?h = "imul (imul h0 a ?s1) b ?s2"
  let ?ca = "mat_ncols (h0 ! a)"
  have r: "weighted_concatenate h0 a b (Fin v) = (concatenate_features ?A ?B, ?h)"
    by (rule weighted_concatenate_distinct[OF assms(1-3)])
  have nr: "mat_nrows ?A = mat_nrows ?B" using assms(6) by (simp add: mat_nrows_scale)
  from nr obtain M where M: "concatenate_features ?A ?B = Inr M"
    "fused_nrows M = mat_nrows ?A" "fused_ncols M = mat_ncols ?A + mat_ncols ?B"
    by (rule concatenate_features_ok)
  have wfA: "wf_matrix ?A" and wfB: "wf_matrix ?B"
    using assms(4,5) by (simp_all add: wf_scale_matrix)
  have fd: "fused_dense M = map2 (@) (dense_of ?A) (dense_of ?B)"
    by (rule fused_dense_concatenate[OF wfA wfB M(1)])
  have rl: "\<forall>r \<in> set (dense_of ?A). length r = ?ca"
    using dense_of_row_length[OF wfA] by (simp add: mat_ncols_scale)
  have ll: "length (dense_of ?A) = length (dense_of ?B)"
    using nr by (simp add: length_dense_of)
  from map_take_map2_append[OF rl ll]
  have blocks: "map (take ?ca) (fused_dense M) = dense_of ?A"
    "map (drop ?ca) (fused_dense M) = dense_of ?B"
    unfolding fd by simp_all
  have zero: "v = 0 \<Longrightarrow> ?A = h0 ! a \<and> ?s2 = Fin 0"
    by (simp add: fl_sub_def scale_matrix_one)
  have one: "v = 1 \<Longrightarrow> ?B = h0 ! b \<and> ?s1 = Fin 0"
    by (simp add: fl_sub_def scale_matrix_one)
  have c0: "v = 0 \<longrightarrow>
        map (take ?ca) (fused_dense M) = dense_of (h0 ! a) \<and>
        ((\<forall>x \<in> set (stored_values (h0 ! b)). is_finite x) \<longrightarrow>
           map (drop ?ca) (fused_dense M)
             = replicate (mat_nrows (h0 ! b)) (replicate (mat_ncols (h0 ! b)) (Fin 0)))"
  proof (intro impI conjI)
    assume v: "v = 0"
    show "map (take ?ca) (fused_dense M) = dense_of (h0 ! a)"
      using blocks(1) zero[OF v] by simp
    assume f: "\<forall>x \<in> set (stored_values (h0 ! b)). is_finite x"
    show "map (drop ?ca) (fused_dense M)
             = replicate (mat_nrows (h0 ! b)) (replicate (mat_ncols (h0 ! b)) (Fin 0))"
      using blocks(2) zero[OF v] scale_zero_dense_of[OF assms(5) f] by simp
  qed
  have c1: "v = 1 \<longrightarrow>
        map (drop ?ca) (fused_dense M) = dense_of (h0 ! b) \<and>
        ((\<forall>x \<in> set (stored_values (h0 ! a)). is_finite x) \<longrightarrow>
           map (take ?ca) (fused_dense M)
             = replicate (mat_nrows (h0 ! a)) (replicate (mat_ncols (h0 ! a)) (Fin 0)))"
  proof (intro impI conjI)
    assume v: "v = 1"
    show "map (drop ?ca) (fused_dense M) = dense_of (h0 ! b)"
      using blocks(2) one[OF v] by simp
    assume f: "\<forall>x \<in> set (stored_values (h0 ! a)). is_finite x"
    show "map (take ?ca) (fused_dense M)
             = replicate (mat_nrows (h0 ! a)) (replicate (mat_ncols (h0 ! a)) (Fin 0))"
      using blocks(1) one[OF v] scale_zero_dense_of[OF assms(4) f] by simp
  qed
  have sh: "fused_nrows M = mat_nrows (h0 ! a)"
    "fused_ncols M = mat_ncols (h0 ! a) + mat_ncols (h0 ! b)"
    using M(2,3) by (simp_all add: mat_nrows_scale mat_ncols_scale)
  show ?thesis
    using r M(1) sh c0 c1 by (intro exI[of _ M] exI[of _ ?h]) simp
qed

theorem weighted_concatenate_blocks_witness:
  "(0::nat) < length [Dense 1 [[Fin 2], [Fin 3]],
                      Sparse \<lparr>data = [Fin 5], indices = [1], indptr = [0, 1, 1], ncols = 2\<rparr>] \<and>
   (1::nat) < length [Dense 1 [[Fin 2], [Fin 3]],
                      Sparse \<lparr>data = [Fin 5], indices = [1], indptr = [0, 1, 1], ncols = 2\<rparr>] \<and>
   (0::nat) \<noteq> 1 \<and>
   wf_matrix (Dense 1 [[Fin 2], [Fin 3]]) \<and>
   wf_matrix (Sparse \<lparr>data = [Fin 5], indices = [1], indptr = [0, 1, 1], ncols = 2\<rparr>) \<and>
   mat_nrows (Dense 1 [[Fin 2], [Fin 3]])
     = mat_nrows (Sparse \<lparr>data = [Fin 5], indices = [1], indptr = [0, 1, 1], ncols = 2\<rparr>) \<and>
   (0::real) \<le> 0 \<and> (0::real) \<le> 1 \<and>
   (\<exists>M h. weighted_concatenate
             [Dense 1 [[Fin 2], [Fin 3]],
              Sparse \<lparr>data = [Fin 5], indices = [1], indptr = [0, 1, 1], ncols = 2\<rparr>] 0 1 (Fin 0)
           = (Inr M, h) \<and>
      fused_nrows M = 2 \<and> fused_ncols M = 3 \<and>
      map (take 1) (fused_dense M) = [[Fin 2], [Fin 3]] \<and>
      map (drop 1) (fused_dense M) = [[Fin 0, Fin 0], [Fin 0, Fin 0]])"
proof -
  define S where "S = \<lparr>data = [Fin 5], indices = [1::int], indptr = [0::int, 1, 1], ncols = 2::nat\<rparr>"
  define h0 where "h0 = [Dense 1 [[Fin 2], [Fin 3]], Sparse S]"
  have h1: "(0::nat) < length h0" and h2: "(1::nat) < length h0" and h3: "(0::nat) \<noteq> 1"
    by (simp_all add: h0_def)
  have a: "h0 ! 0 = Dense 1 [[Fin 2], [Fin 3]]" and b: "h0 ! 1 = Sparse S" by (simp_all add: h0_def)
  have h4: "wf_matrix (h0 ! 0)" by (simp add: a)
  have h5: "wf_matrix (h0 ! 1)" unfolding b by (simp add: S_def csr_inv_def)
  have h6: "mat_nrows (h0 ! 0) = mat_nrows (h0 ! 1)" unfolding a b by (simp add: S_def nrows_def)
  have h7: "(0::real) \<le> 0" and h8: "(0::real) \<le> 1" by simp_all
  have fin: "\<forall>x \<in> set (stored_values (h0 ! 1)). is_finite x" unfolding b by (simp add: S_def)
  from weighted_concatenate_blocks[OF h1 h2 h3 h4 h5 h6 h7 h8] fin
  obtain M h where r: "weighted_concatenate h0 0 1 (Fin 0) = (Inr M, h)"
    and n: "fused_nrows M = mat_nrows (h0 ! 0)"
    and c: "fused_ncols M = mat_ncols (h0 ! 0) + mat_ncols (h0 ! 1)"
    and t: "map (take (mat_ncols (h0 ! 0))) (fused_dense M) = dense_of (h0 ! 0)"
    and d: "map (drop (mat_ncols (h0 ! 0))) (fused_dense M)
             = replicate (mat_nrows (h0 ! 1)) (replicate (mat_ncols (h0 ! 1)) (Fin 0))"
    by blast
  have n': "fused_nrows M = 2" using n unfolding a by simp
  have c': "fused_ncols M = 3" using c unfolding a b by (simp add: S_def)
  have t': "map (take 1) (fused_dense M) = [[Fin 2], [Fin 3]]" using t unfolding a by simp
  have d': "map (drop 1) (fused_dense M) = [[Fin 0, Fin 0], [Fin 0, Fin 0]]"
    using d unfolding a b by (simp add: S_def nrows_def numeral_2_eq_2)
  have ex: "\<exists>M h. weighted_concatenate h0 0 1 (Fin 0) = (Inr M, h) \<and>
      fused_nrows M = 2 \<and> fused_ncols M = 3 \<and>
      map (take 1) (fused_dense M) = [[Fin 2], [Fin 3]] \<and>
      map (drop 1) (fused_dense M) = [[Fin 0, Fin 0], [Fin 0, Fin 0]]"
    by (intro exI[of _ M] exI[of _ h] conjI r n' c' t' d')
  have hyps: "wf_matrix (Dense 1 [[Fin 2], [Fin 3]]) \<and> wf_matrix (Sparse S) \<and>
      mat_nrows (Dense 1 [[Fin 2], [Fin 3]]) = mat_nrows (Sparse S)"
    using h4 h5 h6 unfolding a b by simp
  show ?thesis
    unfolding S_def[symmetric] h0_def[symmetric]
    using h1 h2 hyps ex by simp
qed

text \<open>
  The claim as stated, for every pair of matrices, fails when the two arguments are one
  and the same object: both scalings then fall on it, and at coefficient 0 the first
  block of the result is zero instead of the self features.
\<close>

theorem weighted_concatenate_same_object_counterexample:
  "weighted_concatenate [Dense 1 [[Fin 2], [Fin 3]]] 0 0 (Fin 0)
     = (Inr (FusedDense 2 [[Fin 0, Fin 0], [Fin 0, Fin 0]]), [Dense 1 [[Fin 0], [Fin 0]]])"
  by (simp add: weighted_concatenate_def imul_def fl_sub_def np_concatenate_def)

section \<open>Properties of the Z-Scorer\<close>

lemma zscore_sparse_store:
  "take (length h0) (snd (zscore_sparse h0 matrix dir)) = h0"
  by (auto simp: zscore_sparse_def alloc_def Let_def split: sum.splits matrix.splits)

lemma zscore_store_prefix: "take (length h0) (snd (zscore h0 matrix axis)) = h0"
  by (auto simp: zscore_def zscore_sparse_store split: sum.splits matrix.splits)

text \<open>
  C10. \<^verbatim>\<open>zscore\<close> changes no object that existed before the call: the store it leaves
  begins with the store it was given (the sparse branch only adds its squared copy),
  so the caller's matrix holds its original values, for a dense or a sparse matrix, any
  axis, and whether the call returns or raises.
\<close>

theorem zscore_leaves_input_unchanged:
  "take (length h0) (snd (zscore h0 matrix axis)) = h0 \<and>
   (matrix < length h0 \<longrightarrow> snd (zscore h0 matrix axis) ! matrix = h0 ! matrix)"
proof -
  have p: "take (length h0) (snd (zscore h0 matrix axis)) = h0" by (rule zscore_store_prefix)
  have "snd (zscore h0 matrix axis) ! matrix = h0 ! matrix" if "matrix < length h0"
    using nth_take[OF that, of "snd (zscore h0 matrix axis)"] p by simp
  with p show ?thesis by blast
qed

theorem zscore_leaves_input_unchanged_witness:
  "(0::nat) < length [Sparse \<lparr>data = [Fin 7, Fin 1, Fin 7, Fin 3], indices = [0, 1, 0, 1],
                               indptr = [0, 2, 4], ncols = 2\<rparr>] \<and>
   snd (zscore [Sparse \<lparr>data = [Fin 7, Fin 1, Fin 7, Fin 3], indices = [0, 1, 0, 1],
                         indptr = [0, 2, 4], ncols = 2\<rparr>] 0 0) ! 0
     = Sparse \<lparr>data = [Fin 7, Fin 1, Fin 7, Fin 3], indices = [0, 1, 0, 1],
               indptr = [0, 2, 4], ncols = 2\<rparr>"
  using zscore_leaves_input_unchanged[where ?h0.0 = "[Sparse \<lparr>data = [Fin 7, Fin 1, Fin 7, Fin 3],
      indices = [0, 1, 0, 1], indptr = [0, 2, 4], ncols = 2\<rparr>]" and matrix = 0 and axis = 0]
  by simp

text \<open>The squared copy of the sparse branch is a new object of the store, and it is the
  one that is squared in place.\<close>

lemma zscore_sparse_example:
  "snd (zscore [Sparse \<lparr>data = [Fin 7, Fin 1, Fin 7, Fin 3], indices = [0, 1, 0, 1],
                         indptr = [0, 2, 4], ncols = 2\<rparr>] 0 0)
   = [Sparse \<lparr>data = [Fin 7, Fin 1, Fin 7, Fin 3], indices = [0, 1, 0, 1],
                indptr = [0, 2, 4], ncols = 2\<rparr>,
      Sparse \<lparr>data = [Fin 49, Fin 1, Fin 49, Fin 9], indices = [0, 1, 0, 1],
                indptr = [0, 2, 4], ncols = 2\<rparr>]"
  by (simp add: zscore_def direction_of_def zscore_sparse_def sparse_mean_def alloc_def nrows_def
      square_def Let_def)

text \<open>
  C5. The dense branch takes the means along axis 1 as a one-dimensional array of one
  mean per row and subtracts it under numpy's broadcasting, which lays it along the
  columns. On the square matrix \<open>[[2, 2], [0, 2]]\<close> with axis 1 the first row is
  constant, yet the output row is \<open>[0, 1]\<close>, and the infinity of the second row is
  replaced by the largest double, not by 0; on a matrix that is not square the
  subtraction raises.
\<close>

theorem zscore_dense_axis1_misaligned:
  "zscore [Dense 2 [[Fin 2, Fin 2], [Fin 0, Fin 2]]] 0 1
     = (Inr (Dense 2 [[Fin 0, Fin 1], [Fin (- float_max), Fin 1]]),
        [Dense 2 [[Fin 2, Fin 2], [Fin 0, Fin 2]]]) \<and>
   zscore [Dense 3 [[Fin 7, Fin 1, Fin 2], [Fin 7, Fin 3, Fin 2]]] 0 1
     = (Inl ValueError, [Dense 3 [[Fin 7, Fin 1, Fin 2], [Fin 7, Fin 3, Fin 2]]])"
  by (simp add: zscore_def zscore_dense_def direction_of_def dense_mean_def broadcast_1d_def
      variance_of_def square_def np_sum_def fl_sub_def inf_of_sign_def Let_def)

section \<open>The Z-Scorer along axis 0 and the values it returns\<close>

lemma is_finite_nan_to_num: "is_finite (nan_to_num x)"
  by (cases x) simp_all

text \<open>Whatever \<^verbatim>\<open>zscore\<close> returns holds finite values only: that part of the claim holds
  on every branch.\<close>

lemma zscore_dense_output_finite:
  assumes "zscore_dense c rows dir = Inr (Dense c' out)"
  shows "\<forall>r \<in> set out. \<forall>x \<in> set r. is_finite x"
  using assms
  by (auto simp: zscore_dense_def Let_def is_finite_nan_to_num split: sum.splits prod.splits)

lemma zscore_output_finite:
  assumes "zscore h0 matrix axis = (Inr (Dense c out), h)"
  shows "\<forall>r \<in> set out. \<forall>x \<in> set r. is_finite x"
proof -
  have "\<forall>r \<in> set (map (map nan_to_num) rs). \<forall>x \<in> set r. is_finite x" for rs
    by (auto simp: is_finite_nan_to_num)
  with assms show ?thesis
    by (auto simp: zscore_def zscore_sparse_def alloc_def Let_def
        dest!: zscore_dense_output_finite split: sum.splits matrix.splits)
qed

lemma np_sum_replicate: "np_sum (replicate n (Fin k)) = Fin (real n * k)"
proof -
  have "replicate n (Fin k) = map Fin (replicate n k)" by simp
  then show ?thesis by (simp only: np_sum_Fin sum_list_replicate)
qed

lemma constant_column:
  assumes "\<forall>r \<in> set rows. r ! j = Fin k"
  shows "column rows j = replicate (length rows) (Fin k)"
proof -
  have "map (\<lambda>r. r ! j) rows = map (\<lambda>r. Fin k) rows"
    using assms by (intro map_cong) auto
  then show ?thesis by (simp add: column_def map_replicate_const)
qed

lemma constant_column_mean:
  assumes "\<forall>r \<in> set rows. r ! j = Fin k" "rows \<noteq> []" "j < c"
  shows "dense_mean c rows Columns ! j = Fin k"
proof -
  have n: "real (length rows) \<noteq> 0" using assms(2) by simp
  have "dense_mean c rows Columns ! j
      = fl_div (np_sum (column rows j)) (Fin (real (length rows)))"
    using assms(3) by (simp add: dense_mean_def)
  also have "\<dots> = Fin (real (length rows) * k / real (length rows))"
    using n by (simp add: constant_column[OF assms(1)] np_sum_replicate)
  finally show ?thesis using n by simp
qed

text \<open>
  Along axis 0, the default, the dense branch does what the claim says: a column that
  is constant (at a finite value, in a matrix with at least one row) comes out as zeros.
\<close>

lemma zscore_dense_constant_column:
  assumes wf: "\<forall>r \<in> set rows. length r = c" and ne: "rows \<noteq> []" and j: "j < c"
    and const: "\<forall>r \<in> set rows. r ! j = Fin k"
  shows "\<exists>out. zscore_dense c rows Columns = Inr (Dense c out) \<and> length out = length rows \<and>
           (\<forall>r \<in> set out. r ! j = Fin 0)"
proof -
  let ?E = "dense_mean c rows Columns"
  let ?E2 = "dense_mean c (map (map square) rows) Columns"
  let ?V = "variance_of ?E2 ?E"
  let ?cen = "map (\<lambda>r. map2 fl_sub r ?E) rows"
  let ?z = "map (\<lambda>r. map2 fl_div r (map fl_sqrt ?V)) ?cen"
  have lE: "length ?E = c" "length ?E2 = c" by (simp_all add: dense_mean_def)
  have lV: "length ?V = c" by (simp add: variance_of_def lE)
  have Ej: "?E ! j = Fin k" by (rule constant_column_mean[OF const ne j])
  have sq: "\<forall>r \<in> set (map (map square) rows). r ! j = Fin (k * k)"
    using wf const j by (auto simp: square_def)
  have E2j: "?E2 ! j = Fin (k * k)"
    by (rule constant_column_mean[OF sq _ j]) (simp add: ne)
  have Vj: "?V ! j = Fin 0"
    using j by (simp add: variance_of_def lE Ej E2j square_def fl_sub_def)
  have r: "zscore_dense c rows Columns = Inr (Dense c (map (map nan_to_num) ?z))"
    by (simp add: zscore_dense_def Let_def broadcast_1d_def lE lV)
  have "r ! j = Fin 0" if "r \<in> set (map (map nan_to_num) ?z)" for r
  proof -
    from that obtain r0 where r0: "r0 \<in> set rows"
      "r = map nan_to_num (map2 fl_div (map2 fl_sub r0 ?E) (map fl_sqrt ?V))"
      by auto
    have l0: "length r0 = c" using wf r0(1) by simp
    have "r0 ! j = Fin k" using const r0(1) by simp
    then show ?thesis
      using j by (simp add: r0(2) l0 lE lV Ej Vj fl_sub_def inf_of_sign_def)
  qed
  then show ?thesis using r by simp
qed

lemma zscore_constant_column:
  assumes "h0 ! matrix = Dense c rows" "\<forall>r \<in> set rows. length r = c" "rows \<noteq> []" "j < c"
    "\<forall>r \<in> set rows. r ! j = Fin k"
  shows "\<exists>out. zscore h0 matrix 0 = (Inr (Dense c out), h0) \<and> length out = length rows \<and>
           (\<forall>r \<in> set out. r ! j = Fin 0)"
  using zscore_dense_constant_column[OF assms(2-5)]
  by (auto simp: zscore_def direction_of_def assms(1))

lemma zscore_constant_seven_example:
  "zscore [Dense 2 [[Fin 7, Fin 1], [Fin 7, Fin 3]]] 0 0
     = (Inr (Dense 2 [[Fin 0, Fin (- 1)], [Fin 0, Fin 1]]), [Dense 2 [[Fin 7, Fin 1], [Fin 7, Fin 3]]])"
  by (simp add: zscore_def zscore_dense_def direction_of_def dense_mean_def broadcast_1d_def
      variance_of_def square_def np_sum_def fl_sub_def inf_of_sign_def column_def Let_def
      numeral_2_eq_2 upt_conv_Cons)

end
